theory Spec2Isabelle
  imports Main "HOL-Library.Multiset" "HOL-Library.Product_Lexorder"
begin

section \<open>Round-robin schedule generator (src/utils/scheduleGenerator.ts)\<close>

text \<open>
  Team identifiers are strings (the source accepts \<^verbatim>\<open>string[] | ObjectId[]\<close> and compares
  them with the string literal \<^verbatim>\<open>'dummy'\<close>). A JavaScript \<^verbatim>\<open>Date\<close> is its time value:
  an integer number of milliseconds since the epoch; invalid dates (NaN) are not modelled.
  Numbers are mathematical integers, which is what the source's doubles compute as long as
  all values stay below \<open>2^53\<close>.
\<close>

datatype match_status = scheduled | in_progress | completed | canceled | postponed

record fixture =
  fx_league :: string
  teamA :: string
  teamB :: string
  scheduledDate :: int
  location :: "string option"
  status :: match_status

text \<open>
  The two \<^verbatim>\<open>throw new Error(...)\<close> of the generator: ``At least 2 teams are required to
  generate a schedule'' and ``Not enough days (totalDays) to schedule all matches
  (totalMatches)'', the latter carrying the two numbers of its message.
\<close>

datatype schedule_error =
    InsufficientParticipants
  | InsufficientSchedulingWindow int int

definition ms_per_day :: int where
  "ms_per_day = 1000 * 60 * 60 * 24"

text \<open>
  The source dates a fixture by \<^verbatim>\<open>matchDate = new Date(start);
  matchDate.setDate(start.getDate() + k)\<close>, which moves the date by \<open>k\<close> days of the
  local calendar. What a local day is depends on the time zone of the process: an input of
  the program that is not an argument of the function. A time zone is given the way
  ECMAScript reads it, as \<^verbatim>\<open>LocalTZA(t, isUTC)\<close>: the offset of local time from UTC in
  milliseconds, at the UTC time value \<open>t\<close> when \<open>isUTC\<close> holds and at the local time value
  \<open>t\<close> otherwise.
\<close>

type_synonym time_zone = "int \<Rightarrow> bool \<Rightarrow> int"

definition LocalTime :: "time_zone \<Rightarrow> int \<Rightarrow> int" where
  "LocalTime tz t = t + tz t True"

definition UTC :: "time_zone \<Rightarrow> int \<Rightarrow> int" where
  "UTC tz t = t - tz t False"

text \<open>
  \<^verbatim>\<open>getDate()\<close> is \<^verbatim>\<open>DateFromTime(LocalTime(t))\<close>, and \<^verbatim>\<open>setDate(dt)\<close> stores
  \<^verbatim>\<open>UTC(MakeDate(MakeDay(YearFromTime(t'), MonthFromTime(t'), dt), TimeWithinDay(t')))\<close>
  for \<^verbatim>\<open>t' = LocalTime(t)\<close>. \<^verbatim>\<open>MakeDay\<close> at the day of the month
  \<^verbatim>\<open>DateFromTime(t') + k\<close> is the day number of \<open>t'\<close> plus \<open>k\<close>, so the local time value
  moves by \<open>k\<close> times 86400000 ms and is then read back as a UTC time value.
  (\<^verbatim>\<open>TimeClip\<close>, which rejects time values beyond 8.64e15 ms, is left out.)
\<close>

definition add_days :: "time_zone \<Rightarrow> int \<Rightarrow> int \<Rightarrow> int" where
  "add_days tz start k = UTC tz (LocalTime tz start + k * ms_per_day)"

text \<open>
  \<^verbatim>\<open>teams.splice(1, 0, teams.pop())\<close>: the last element is removed and inserted at index 1.
  The working list always has at least two elements when the generator rotates it; the
  empty list (where \<^verbatim>\<open>pop\<close> would yield \<^verbatim>\<open>undefined\<close>) is left as it is.
\<close>

definition rotate_teams :: "string list \<Rightarrow> string list" where
  "rotate_teams teams =
     (if teams = [] then []
      else let popped = last teams; rest = butlast teams
           in take 1 rest @ [popped] @ drop 1 rest)"

text \<open>
  The inner loop \<^verbatim>\<open>for (let i = 0; i < n / 2; i++)\<close> with the state it mutates: the
  \<^verbatim>\<open>matches\<close> array and \<^verbatim>\<open>matchIndex\<close>. The bound \<open>i < n / 2\<close> is written
  \<open>2 * i < n\<close>.
\<close>

function round_loop ::
  "time_zone \<Rightarrow> string \<Rightarrow> int \<Rightarrow> int \<Rightarrow> string option \<Rightarrow> string list \<Rightarrow> nat \<Rightarrow> nat
     \<Rightarrow> fixture list \<times> int \<Rightarrow> fixture list \<times> int" where
  "round_loop tz leagueId start daysBetweenMatches venue teams n i (matches, matchIndex) =
     (if 2 * i < n then
        (let team1 = teams ! i;
             team2 = teams ! (n - 1 - i)
         in if team1 \<noteq> ''dummy'' \<and> team2 \<noteq> ''dummy'' then
              (let matchDate = add_days tz start (matchIndex * daysBetweenMatches)
               in round_loop tz leagueId start daysBetweenMatches venue teams n (i + 1)
                    (matches @ [\<lparr>fx_league = leagueId, teamA = team1, teamB = team2,
                                 scheduledDate = matchDate, location = venue,
                                 status = scheduled\<rparr>],
                     matchIndex + 1))
            else round_loop tz leagueId start daysBetweenMatches venue teams n (i + 1)
                   (matches, matchIndex))
      else (matches, matchIndex))"
  by pat_completeness auto
termination
  by (relation "measure (\<lambda>(tz, leagueId, start, d, venue, teams, n, i, s). n - 2 * i)") auto

text \<open>The outer loop \<^verbatim>\<open>for (let round = 0; round < n - 1; round++)\<close>.\<close>

function rounds_loop ::
  "time_zone \<Rightarrow> string \<Rightarrow> int \<Rightarrow> int \<Rightarrow> string option \<Rightarrow> nat \<Rightarrow> nat
     \<Rightarrow> string list \<times> fixture list \<times> int \<Rightarrow> fixture list" where
  "rounds_loop tz leagueId start daysBetweenMatches venue n round (teams, matches, matchIndex) =
     (if round + 1 < n then
        (let (matches', matchIndex') =
               round_loop tz leagueId start daysBetweenMatches venue teams n 0
                 (matches, matchIndex)
         in rounds_loop tz leagueId start daysBetweenMatches venue n (round + 1)
              (rotate_teams teams, matches', matchIndex'))
      else matches)"
  by pat_completeness auto
termination
  by (relation "measure (\<lambda>(tz, leagueId, start, d, venue, n, round, s). n - round)") auto

definition generateRoundRobinSchedule ::
  "time_zone \<Rightarrow> string \<Rightarrow> string list \<Rightarrow> int \<Rightarrow> int \<Rightarrow> string option
     \<Rightarrow> schedule_error + fixture list" where
  "generateRoundRobinSchedule tz leagueId teamIds startDate endDate venue =
     (if length teamIds < 2 then Inl InsufficientParticipants
      else
        let totalDays = (endDate - startDate) div ms_per_day;
            totalMatches = (int (length teamIds) * (int (length teamIds) - 1)) div 2
        in if totalDays < totalMatches
           then Inl (InsufficientSchedulingWindow totalDays totalMatches)
           else
             let hasDummy = (length teamIds mod 2 = 1);
                 teams = (if hasDummy then teamIds @ [''dummy''] else teamIds);
                 n = length teams;
                 daysBetweenMatches = totalDays div totalMatches
             in Inr (rounds_loop tz leagueId startDate daysBetweenMatches venue n 0
                       (teams, [], 0)))"

section \<open>Standings entries (src/models/ranking.ts)\<close>

text \<open>
  A document of the \<^verbatim>\<open>Ranking\<close> collection. \<^verbatim>\<open>lastUpdated\<close> is a time value; the
  \<^verbatim>\<open>createdAt\<close>/\<^verbatim>\<open>updatedAt\<close> stamps kept by the database layer are left out.
\<close>

record ranking =
  league :: string
  team :: string
  rank :: int
  matchesPlayed :: int
  matchesWon :: int
  matchesLost :: int
  setsWon :: int
  setsLost :: int
  gamesWon :: int
  gamesLost :: int
  points :: int
  lastUpdated :: int

text \<open>
  \<^verbatim>\<open>rankingSchema.methods.updateWithMatchResult\<close>; \<open>now\<close> is the value of
  \<^verbatim>\<open>new Date()\<close> read by the call.
\<close>

definition updateWithMatchResult ::
  "int \<Rightarrow> bool \<Rightarrow> int \<Rightarrow> int \<Rightarrow> int \<Rightarrow> int \<Rightarrow> int \<Rightarrow> int \<Rightarrow> ranking \<Rightarrow> ranking" where
  "updateWithMatchResult now isWinner setsWon' setsLost' gamesWon' gamesLost'
       pointsPerWin pointsPerLoss this =
     (let this1 = this\<lparr>matchesPlayed := matchesPlayed this + 1\<rparr>;
          this2 = (if isWinner
                   then this1\<lparr>matchesWon := matchesWon this1 + 1,
                              points := points this1 + pointsPerWin\<rparr>
                   else this1\<lparr>matchesLost := matchesLost this1 + 1,
                              points := points this1 + pointsPerLoss\<rparr>)
      in this2\<lparr>setsWon := setsWon this2 + setsWon',
               setsLost := setsLost this2 + setsLost',
               gamesWon := gamesWon this2 + gamesWon',
               gamesLost := gamesLost this2 + gamesLost',
               lastUpdated := now\<rparr>)"

section \<open>Standings update (updateRankings in src/app/api/matches/[id]/route.ts)\<close>

text \<open>
  The \<^verbatim>\<open>Ranking\<close> collection is the list of its documents in insertion order. The
  collection has a unique index on \<^verbatim>\<open>(league, team)\<close>, which is the key a document is
  found and saved under. Store operations are taken to succeed: a storage failure, and a
  rejection by the schema's \<^verbatim>\<open>min\<close> validators, are outside the model.
\<close>

type_synonym ranking_store = "ranking list"

definition findOne :: "string \<Rightarrow> string \<Rightarrow> ranking_store \<Rightarrow> ranking option" where
  "findOne leagueId teamId st = find (\<lambda>r. league r = leagueId \<and> team r = teamId) st"

definition save :: "ranking \<Rightarrow> ranking_store \<Rightarrow> ranking_store" where
  "save doc st =
     (if list_ex (\<lambda>r. league r = league doc \<and> team r = team doc) st
      then map (\<lambda>r. if league r = league doc \<and> team r = team doc then doc else r) st
      else st @ [doc])"

text \<open>
  \<^verbatim>\<open>new RankingModel({league, team, matchesPlayed: 0, ...})\<close>: the counters are given as
  zero, \<^verbatim>\<open>rank\<close> and \<^verbatim>\<open>lastUpdated\<close> take the schema defaults \<open>1\<close> and \<^verbatim>\<open>Date.now\<close>.
\<close>

definition new_ranking :: "int \<Rightarrow> string \<Rightarrow> string \<Rightarrow> ranking" where
  "new_ranking now leagueId teamId =
     \<lparr>league = leagueId, team = teamId, rank = 1, matchesPlayed = 0, matchesWon = 0,
      matchesLost = 0, setsWon = 0, setsLost = 0, gamesWon = 0, gamesLost = 0, points = 0,
      lastUpdated = now\<rparr>"

text \<open>
  \<^verbatim>\<open>own.filter((score, index) => score > other[index]).length\<close>. An index beyond the
  end of \<open>other\<close> reads \<^verbatim>\<open>undefined\<close>, and the comparison is then false.
\<close>

definition count_sets_won :: "int list \<Rightarrow> int list \<Rightarrow> int" where
  "count_sets_won own other =
     int (length (filter (\<lambda>(score, index). index < length other \<and> score > other ! index)
                    (zip own [0..<length own])))"

text \<open>\<^verbatim>\<open>scores.reduce((sum, score) => sum + score, 0)\<close>.\<close>

definition count_games :: "int list \<Rightarrow> int" where
  "count_games scores = foldl (\<lambda>sum score. sum + score) 0 scores"

text \<open>
  \<^verbatim>\<open>RankingModel.find({ league: leagueId }).sort({ points: -1, matchesWon: -1 })\<close>:
  the league's documents by descending points, then descending matchesWon. Among documents
  equal in both the database promises no order; the model keeps them in insertion order.
\<close>

definition find_sorted :: "string \<Rightarrow> ranking_store \<Rightarrow> ranking list" where
  "find_sorted leagueId st =
     sort_key (\<lambda>r. (- points r, - matchesWon r)) (filter (\<lambda>r. league r = leagueId) st)"

text \<open>
  \<^verbatim>\<open>for (let i = 0; i < allRankings.length; i++) { allRankings[i].rank = i + 1;
  await allRankings[i].save(); }\<close>
\<close>

function rank_loop :: "ranking list \<Rightarrow> nat \<Rightarrow> ranking_store \<Rightarrow> ranking_store" where
  "rank_loop allRankings i st =
     (if i < length allRankings
      then rank_loop allRankings (i + 1) (save ((allRankings ! i)\<lparr>rank := int i + 1\<rparr>) st)
      else st)"
  by pat_completeness auto
termination
  by (relation "measure (\<lambda>(allRankings, i, st). length allRankings - i)") auto

definition updateRankings ::
  "int \<Rightarrow> int \<Rightarrow> string \<Rightarrow> string \<Rightarrow> string \<Rightarrow> string \<Rightarrow> int list \<Rightarrow> int list \<Rightarrow> int \<Rightarrow> int
     \<Rightarrow> ranking_store \<Rightarrow> ranking_store" where
  "updateRankings nowA nowB leagueId teamAId teamBId winnerId teamAScore teamBScore
       pointsPerWin pointsPerLoss st =
     (let teamASetsWon = count_sets_won teamAScore teamBScore;
          teamBSetsWon = count_sets_won teamBScore teamAScore;
          teamAGamesWon = count_games teamAScore;
          teamBGamesWon = count_games teamBScore;
          rankingA = (case findOne leagueId teamAId st of
                        None \<Rightarrow> new_ranking nowA leagueId teamAId
                      | Some r \<Rightarrow> r);
          rankingA' = updateWithMatchResult nowA (winnerId = teamAId) teamASetsWon
                        teamBSetsWon teamAGamesWon teamBGamesWon pointsPerWin pointsPerLoss
                        rankingA;
          st1 = save rankingA' st;
          rankingB = (case findOne leagueId teamBId st1 of
                        None \<Rightarrow> new_ranking nowB leagueId teamBId
                      | Some r \<Rightarrow> r);
          rankingB' = updateWithMatchResult nowB (winnerId = teamBId) teamBSetsWon
                        teamASetsWon teamBGamesWon teamAGamesWon pointsPerWin pointsPerLoss
                        rankingB;
          st2 = save rankingB' st1;
          allRankings = find_sorted leagueId st2
      in rank_loop allRankings 0 st2)"

section \<open>Result submission (POST in src/app/api/matches/[id]/route.ts)\<close>

text \<open>
  The documents the handler reads, with the fields it uses. A team's \<^verbatim>\<open>players\<close> are read
  through \<^verbatim>\<open>p.userId\<close>, which may be absent.
\<close>

record player_ref =
  userId :: "string option"

record team_doc =
  players :: "player_ref list"

record league_doc =
  lg_organizer :: string
  lg_pointsPerWin :: int
  lg_pointsPerLoss :: int

record match_score =
  r_teamAScore :: "int list"
  r_teamBScore :: "int list"
  r_winner :: string

record match_doc =
  m_league :: string
  m_teamA :: string
  m_teamB :: string
  m_status :: match_status
  m_result :: "match_score option"
  m_actualEndTime :: "int option"
  m_notes :: "string option"
  m_submittedBy :: "string option"

record database =
  db_matches :: "string \<rightharpoonup> match_doc"
  db_leagues :: "string \<rightharpoonup> league_doc"
  db_teams :: "string \<rightharpoonup> team_doc"
  db_rankings :: ranking_store

text \<open>The body of the request (\<^verbatim>\<open>SubmitMatchResultRequest\<close>); a field may be missing.\<close>

record submit_request =
  rq_teamAScore :: "int list option"
  rq_teamBScore :: "int list option"
  rq_notes :: "string option"

text \<open>
  The errors the handler throws or answers with, by message: ``Unauthorized'' (401);
  ``Match not found'', ``League not found'', ``One or both teams not found'' (404);
  ``Only league organizers or team members can submit results'' (403); and with 400:
  ``Results can only be submitted for scheduled or in-progress matches'', ``Scores for both
  teams are required'', ``Scores must have the same number of sets'', ``At least one set must be
  played'', ``Ties are not allowed in sets'', ``Match must have a winner''.
\<close>

datatype submit_error =
    Unauthorized
  | MatchNotFound
  | LeagueNotFound
  | TeamsNotFound
  | NotPermitted
  | NotSubmittable
  | ScoresRequired
  | SetCountMismatch
  | NoSetsPlayed
  | TiedSet
  | NoWinner

text \<open>
  The loop that counts set wins, with its \<^verbatim>\<open>throw\<close> on a tied set. A set whose score on
  the other side is missing compares false both ways and is reported as tied.
\<close>

function wins_loop :: "int list \<Rightarrow> int list \<Rightarrow> nat \<Rightarrow> int \<times> int \<Rightarrow> submit_error + int \<times> int" where
  "wins_loop teamAScore teamBScore i (teamAWins, teamBWins) =
     (if i < length teamAScore then
        (if i < length teamBScore \<and> teamAScore ! i > teamBScore ! i
         then wins_loop teamAScore teamBScore (i + 1) (teamAWins + 1, teamBWins)
         else if i < length teamBScore \<and> teamBScore ! i > teamAScore ! i
         then wins_loop teamAScore teamBScore (i + 1) (teamAWins, teamBWins + 1)
         else Inl TiedSet)
      else Inr (teamAWins, teamBWins))"
  by pat_completeness auto
termination
  by (relation "measure (\<lambda>(teamAScore, teamBScore, i, w). length teamAScore - i)") auto

text \<open>
  ``Validate match scores'' and ``Calculate the winner'' (lines 221--256): the result is the
  winner's id.
\<close>

definition validate_scores :: "submit_request \<Rightarrow> match_doc \<Rightarrow> submit_error + string" where
  "validate_scores data match =
     (case (rq_teamAScore data, rq_teamBScore data) of
        (Some teamAScore, Some teamBScore) \<Rightarrow>
          if length teamAScore \<noteq> length teamBScore then Inl SetCountMismatch
          else if length teamAScore = 0 then Inl NoSetsPlayed
          else (case wins_loop teamAScore teamBScore 0 (0, 0) of
                  Inl e \<Rightarrow> Inl e
                | Inr (teamAWins, teamBWins) \<Rightarrow>
                    if teamAWins > teamBWins then Inr (m_teamA match)
                    else if teamBWins > teamAWins then Inr (m_teamB match)
                    else Inl NoWinner)
      | _ \<Rightarrow> Inl ScoresRequired)"

text \<open>
  The checks before the scores are looked at (lines 166--219): session, match, league, match
  status, both teams, and the permission of the user.
\<close>

definition is_team_member :: "string \<Rightarrow> team_doc \<Rightarrow> bool" where
  "is_team_member uid t =
     list_ex (\<lambda>playerId. find (\<lambda>p. userId p = Some uid) (players t) \<noteq> None) (players t)"

definition submission_guards ::
  "string option \<Rightarrow> string \<Rightarrow> database \<Rightarrow> submit_error + string \<times> match_doc \<times> league_doc" where
  "submission_guards session mid db =
     (case session of
        None \<Rightarrow> Inl Unauthorized
      | Some uid \<Rightarrow>
          (case db_matches db mid of
             None \<Rightarrow> Inl MatchNotFound
           | Some match \<Rightarrow>
               (case db_leagues db (m_league match) of
                  None \<Rightarrow> Inl LeagueNotFound
                | Some lg \<Rightarrow>
                    if m_status match \<noteq> in_progress \<and> m_status match \<noteq> scheduled
                    then Inl NotSubmittable
                    else
                      (case (db_teams db (m_teamA match), db_teams db (m_teamB match)) of
                         (Some tA, Some tB) \<Rightarrow>
                           let isLeagueOrganizer = (lg_organizer lg = uid);
                               isTeamAMember = is_team_member uid tA;
                               isTeamBMember = is_team_member uid tB
                           in if \<not> isLeagueOrganizer \<and> \<not> isTeamAMember \<and> \<not> isTeamBMember
                              then Inl NotPermitted
                              else Inr (uid, match, lg)
                       | _ \<Rightarrow> Inl TeamsNotFound))))"

text \<open>
  The handler: the state of the database after the request, and the error or the match
  document it answers with. \<open>now\<close>, \<open>nowA\<close> and \<open>nowB\<close> are the three readings of the clock.
  An exception leaves the database as it was when it was thrown. As for the standings,
  \<^verbatim>\<open>match.save()\<close> is taken to succeed: the persistence layer, with the validators its
  schemas declare (no negative score, notes of at most 500 characters), is outside the model.
\<close>

definition POST ::
  "int \<Rightarrow> int \<Rightarrow> int \<Rightarrow> string option \<Rightarrow> string \<Rightarrow> submit_request \<Rightarrow> database
     \<Rightarrow> database \<times> (submit_error + match_doc option)" where
  "POST now nowA nowB session mid data db =
     (case submission_guards session mid db of
        Inl e \<Rightarrow> (db, Inl e)
      | Inr (uid, match, lg) \<Rightarrow>
          (case validate_scores data match of
             Inl e \<Rightarrow> (db, Inl e)
           | Inr winnerId \<Rightarrow>
               let match' = match
                     \<lparr>m_result := Some \<lparr>r_teamAScore = the (rq_teamAScore data),
                                        r_teamBScore = the (rq_teamBScore data),
                                        r_winner = winnerId\<rparr>,
                      m_status := completed,
                      m_actualEndTime := Some now,
                      m_notes := (case rq_notes data of
                                    None \<Rightarrow> m_notes match
                                  | Some s \<Rightarrow> if s = [] then m_notes match else Some s),
                      m_submittedBy := Some uid\<rparr>;
                   db1 = db\<lparr>db_matches := (db_matches db)(mid \<mapsto> match')\<rparr>;
                   db2 = db1\<lparr>db_rankings :=
                           updateRankings nowA nowB (m_league match) (m_teamA match)
                             (m_teamB match) winnerId (the (rq_teamAScore data))
                             (the (rq_teamBScore data)) (lg_pointsPerWin lg)
                             (lg_pointsPerLoss lg) (db_rankings db1)\<rparr>
               in (db2, Inr (db_matches db2 mid))))"

section \<open>Auxiliary notions for the proofs about the generator\<close>

text \<open>
  A pairing is kept unless one of its sides is the placeholder; \<open>pairing\<close> is the pair the
  inner loop reads at index \<open>i\<close>; \<open>all_pairs\<close> lists the pairs of the first \<open>r\<close> rounds in
  the order the loops visit them; \<open>mk_fixtures\<close> numbers kept pairs from \<open>k\<close> on and gives
  each its date.
\<close>

definition playable :: "string \<times> string \<Rightarrow> bool" where
  "playable p \<longleftrightarrow> fst p \<noteq> ''dummy'' \<and> snd p \<noteq> ''dummy''"

definition pairing :: "'a list \<Rightarrow> nat \<Rightarrow> nat \<Rightarrow> 'a \<times> 'a" where
  "pairing teams n i = (teams ! i, teams ! (n - 1 - i))"

definition round_pairs :: "'a list \<Rightarrow> nat \<Rightarrow> ('a \<times> 'a) list" where
  "round_pairs teams n = map (pairing teams n) [0..<(n + 1) div 2]"

fun mk_fixtures ::
  "time_zone \<Rightarrow> string \<Rightarrow> int \<Rightarrow> int \<Rightarrow> string option \<Rightarrow> int \<Rightarrow> (string \<times> string) list \<Rightarrow> fixture list" where
  "mk_fixtures tz leagueId start d venue k [] = []"
| "mk_fixtures tz leagueId start d venue k (p # ps) =
     \<lparr>fx_league = leagueId, teamA = fst p, teamB = snd p,
      scheduledDate = add_days tz start (k * d), location = venue, status = scheduled\<rparr>
     # mk_fixtures tz leagueId start d venue (k + 1) ps"

definition all_pairs :: "string list \<Rightarrow> nat \<Rightarrow> nat \<Rightarrow> (string \<times> string) list" where
  "all_pairs teams n r = concat (map (\<lambda>j. round_pairs ((rotate_teams ^^ j) teams) n) [0..<r])"

definition up :: "'a \<times> 'a \<Rightarrow> 'a set" where
  "up p = {fst p, snd p}"

definition working_teams :: "string list \<Rightarrow> string list" where
  "working_teams teamIds = (if length teamIds mod 2 = 1 then teamIds @ [''dummy''] else teamIds)"

definition schedule_pairs :: "string list \<Rightarrow> (string \<times> string) list" where
  "schedule_pairs teamIds =
     filter playable (all_pairs (working_teams teamIds) (length (working_teams teamIds))
                        (length (working_teams teamIds) - 1))"

definition plays :: "fixture \<Rightarrow> string \<Rightarrow> string \<Rightarrow> bool" where
  "plays f a b \<longleftrightarrow> (teamA f = a \<and> teamB f = b) \<or> (teamA f = b \<and> teamB f = a)"

text \<open>
  Two time zones used as examples: UTC, and Central European Time around its change to summer
  time on 31 March 2024 at 01:00 UTC (time value 1711846800000), one hour ahead of UTC before
  the change and two hours after. A local time in the hour the change skips is read with the
  offset before the change.
\<close>

definition utc :: time_zone where
  "utc t isUTC = 0"

definition cet_spring_2024 :: time_zone where
  "cet_spring_2024 t isUTC =
     (if isUTC then (if t < 1711846800000 then 3600000 else 7200000)
      else (if t < 1711846800000 + 7200000 then 3600000 else 7200000))"

section \<open>Auxiliary notions for the proofs about standings\<close>

text \<open>
  \<open>set_wins own other\<close> is the number of sets in which \<open>own\<close> scored more than \<open>other\<close>;
  \<open>invalid_result\<close> collects the four errors raised for a result that breaks the rules of
  a match result; \<open>key\<close> is the pair a standings entry is unique for; \<open>ranks_before\<close> is the
  order of the ranking query.
\<close>

definition set_wins :: "int list \<Rightarrow> int list \<Rightarrow> int" where
  "set_wins own other = int (length (filter (\<lambda>(x, y). x > y) (zip own other)))"

definition invalid_result :: "submit_error \<Rightarrow> bool" where
  "invalid_result e \<longleftrightarrow> e = SetCountMismatch \<or> e = NoSetsPlayed \<or> e = TiedSet \<or> e = NoWinner"

definition key :: "ranking \<Rightarrow> string \<times> string" where
  "key r = (league r, team r)"


fun rank_from :: "nat \<Rightarrow> ranking list \<Rightarrow> ranking_store \<Rightarrow> ranking_store" where
  "rank_from i [] st = st"
| "rank_from i (r # rs) st = rank_from (i + 1) rs (save (r\<lparr>rank := int i + 1\<rparr>) st)"

text \<open>
  \<open>entry_or_new\<close> is the entry the update starts from: the stored one, or a zeroed one.
  \<open>side_updated\<close> is the rule for one side of a match in the words of the specification:
  one more match played; a win and \<open>pointsPerWin\<close> for the winner, a loss and
  \<open>pointsPerLoss\<close> for the loser; own and opponent's set wins and games added.
\<close>

definition entry_or_new :: "int \<Rightarrow> string \<Rightarrow> string \<Rightarrow> ranking_store \<Rightarrow> ranking" where
  "entry_or_new now leagueId teamId st =
     (case findOne leagueId teamId st of None \<Rightarrow> new_ranking now leagueId teamId | Some r \<Rightarrow> r)"

definition side_updated ::
  "bool \<Rightarrow> int \<Rightarrow> int \<Rightarrow> int \<Rightarrow> int \<Rightarrow> int \<Rightarrow> int \<Rightarrow> ranking \<Rightarrow> ranking \<Rightarrow> bool" where
  "side_updated won ownSets oppSets ownGames oppGames ppw ppl old new \<longleftrightarrow>
     league new = league old \<and> team new = team old
     \<and> matchesPlayed new = matchesPlayed old + 1
     \<and> matchesWon new = matchesWon old + (if won then 1 else 0)
     \<and> matchesLost new = matchesLost old + (if won then 0 else 1)
     \<and> points new = points old + (if won then ppw else ppl)
     \<and> setsWon new = setsWon old + ownSets
     \<and> setsLost new = setsLost old + oppSets
     \<and> gamesWon new = gamesWon old + ownGames
     \<and> gamesLost new = gamesLost old + oppGames"

text \<open>A database and two requests used as examples.\<close>

definition example_match :: match_doc where
  "example_match =
     \<lparr>m_league = ''L'', m_teamA = ''A'', m_teamB = ''B'', m_status = scheduled,
      m_result = None, m_actualEndTime = None, m_notes = None, m_submittedBy = None\<rparr>"

definition example_league :: league_doc where
  "example_league = \<lparr>lg_organizer = ''u1'', lg_pointsPerWin = 3, lg_pointsPerLoss = 0\<rparr>"

definition example_db :: database where
  "example_db =
     \<lparr>db_matches = [''m1'' \<mapsto> example_match],
      db_leagues = [''L'' \<mapsto> example_league],
      db_teams = [''A'' \<mapsto> \<lparr>players = []\<rparr>, ''B'' \<mapsto> \<lparr>players = []\<rparr>],
      db_rankings = []\<rparr>"

definition tied_request :: submit_request where
  "tied_request = \<lparr>rq_teamAScore = Some [6, 6], rq_teamBScore = Some [6, 6], rq_notes = None\<rparr>"


section \<open>The generator's loops in closed form\<close>

declare round_loop.simps [simp del] rounds_loop.simps [simp del]

lemma mk_fixtures_append:
  "mk_fixtures tz L s d v k (ps @ qs) =
   mk_fixtures tz L s d v k ps @ mk_fixtures tz L s d v (k + int (length ps)) qs"
  by (induction ps arbitrary: k) (simp_all add: add.assoc)

lemma length_mk_fixtures [simp]: "length (mk_fixtures tz L s d v k ps) = length ps"
  by (induction ps arbitrary: k) simp_all

lemma round_loop_eq:
  "round_loop tz L s d v teams n i (ms, k) =
     (ms @ mk_fixtures tz L s d v k (filter playable (map (pairing teams n) [i..<(n + 1) div 2])),
      k + int (length (filter playable (map (pairing teams n) [i..<(n + 1) div 2]))))"
proof (induction tz L s d v teams n i "(ms, k)" arbitrary: ms k rule: round_loop.induct)
  case (1 tz L s d v teams n i ms k)
  show ?case
  proof (cases "2 * i < n")
    case False
    then have "[i..<(n + 1) div 2] = []" by simp
    with False show ?thesis by (subst round_loop.simps) simp
  next
    case True
    then have upt: "[i..<Suc n div 2] = i # [Suc i..<Suc n div 2]"
      by (simp add: upt_conv_Cons)
    show ?thesis
    proof (cases "playable (pairing teams n i)")
      case yes: True
      then have c: "teams ! i \<noteq> ''dummy'' \<and> teams ! (n - 1 - i) \<noteq> ''dummy''"
        by (simp add: playable_def pairing_def)
      from "1.hyps"(1)[OF True refl refl c refl] True c yes show ?thesis
        by (subst round_loop.simps) (simp add: upt Let_def pairing_def)
    next
      case no: False
      then have c: "\<not> (teams ! i \<noteq> ''dummy'' \<and> teams ! (n - 1 - i) \<noteq> ''dummy'')"
        by (simp add: playable_def pairing_def)
      from "1.hyps"(2)[OF True refl refl c] True c no show ?thesis
        by (subst round_loop.simps) (auto simp add: upt Let_def)
    qed
  qed
qed

lemma all_pairs_Suc:
  "all_pairs teams n (Suc r) = round_pairs teams n @ all_pairs (rotate_teams teams) n r"
proof -
  have "[0..<Suc r] = 0 # map Suc [0..<r]"
    by (simp add: upt_conv_Cons map_Suc_upt del: upt_Suc)
  then show ?thesis
    by (simp add: all_pairs_def comp_def funpow_swap1 del: upt_Suc)
qed

lemma rounds_loop_eq:
  "rounds_loop tz L s d v n r (teams, ms, k) =
     ms @ mk_fixtures tz L s d v k (filter playable (all_pairs teams n (n - 1 - r)))"
proof (induction tz L s d v n r "(teams, ms, k)" arbitrary: teams ms k rule: rounds_loop.induct)
  case (1 tz L s d v n r teams ms k)
  show ?case
  proof (cases "r + 1 < n")
    case False
    then show ?thesis by (subst rounds_loop.simps) (simp add: all_pairs_def)
  next
    case True
    then have sub: "n - 1 - r = Suc (n - 1 - (r + 1))" by simp
    have step: "rounds_loop tz L s d v n r (teams, ms, k) =
        rounds_loop tz L s d v n (r + 1)
          (rotate_teams teams,
           ms @ mk_fixtures tz L s d v k (filter playable (round_pairs teams n)),
           k + int (length (filter playable (round_pairs teams n))))"
      using True by (subst rounds_loop.simps) (simp add: round_loop_eq round_pairs_def)

    have unroll: "all_pairs teams n (n - 1 - r) =
        round_pairs teams n @ all_pairs (rotate_teams teams) n (n - 1 - (r + 1))"
      by (subst sub) (rule all_pairs_Suc)
    have rl: "round_loop tz L s d v teams n 0 (ms, k) =
        (ms @ mk_fixtures tz L s d v k (filter playable (round_pairs teams n)),
         k + int (length (filter playable (round_pairs teams n))))"
      unfolding round_pairs_def by (rule round_loop_eq)
    show ?thesis
      unfolding step unroll
      by (subst "1.hyps"[OF True rl[symmetric] refl]) (simp add: mk_fixtures_append)
  qed
qed

section \<open>Rotation\<close>

text \<open>
  A rotation keeps the first team and turns the others by one place: after \<open>j\<close> rotations
  the team that started at place \<open>k + 1\<close> stands at place \<open>(j + k) mod (n - 1) + 1\<close>.
\<close>

lemma rotate_teams_Cons:
  "xs \<noteq> [] \<Longrightarrow> rotate_teams (x # xs) = x # last xs # butlast xs"
  by (simp add: rotate_teams_def Let_def)

lemma length_rotate_teams [simp]: "length (rotate_teams ts) = length ts"
  by (cases ts) (auto simp: rotate_teams_def Let_def)

lemma length_funpow_rotate_teams [simp]: "length ((rotate_teams ^^ j) ts) = length ts"
  by (induction j) simp_all

lemma funpow_rotate_teams_Cons:
  assumes "xs \<noteq> []"
  shows "\<exists>ys. (rotate_teams ^^ j) (x # xs) = x # ys \<and> rotate j ys = xs \<and> length ys = length xs"
proof (induction j)
  case 0
  show ?case by simp
next
  case (Suc j)
  then obtain ys where ys: "(rotate_teams ^^ j) (x # xs) = x # ys" "rotate j ys = xs"
    "length ys = length xs" by blast
  with assms have ne: "ys \<noteq> []" by auto
  then have pos: "0 < length ys" by simp
  have "rotate1 (last ys # butlast ys) = ys" using ne by simp
  then have "rotate (Suc j) (last ys # butlast ys) = xs"
    using ys(2) by (simp add: rotate1_rotate_swap del: rotate1.simps)
  with ys ne pos show ?case
    by (simp add: rotate_teams_Cons del: rotate1.simps rotate_Suc)
qed

lemma funpow_rotate_teams_nth0:
  assumes "2 \<le> length ts"
  shows "(rotate_teams ^^ j) ts ! 0 = ts ! 0"
proof -
  from assms obtain x xs where ts0: "ts = x # xs"
    by (cases ts) auto
  with assms have "xs \<noteq> []" by auto
  note ts = ts0 this
  from funpow_rotate_teams_Cons[OF ts(2), of j x]
  obtain ys where ys: "(rotate_teams ^^ j) (x # xs) = x # ys" by blast
  show ?thesis
    by (simp only: ts0 ys nth_Cons_0)
qed

lemma funpow_rotate_teams_nth:
  assumes "2 \<le> length ts" "k < length ts - 1"
  shows "(rotate_teams ^^ j) ts ! Suc ((j + k) mod (length ts - 1)) = ts ! Suc k"
proof -
  from assms obtain x xs where ts0: "ts = x # xs"
    by (cases ts) auto
  with assms have "xs \<noteq> []" by auto
  note ts = ts0 this
  from funpow_rotate_teams_Cons[OF ts(2), of j x]
  obtain ys where ys: "(rotate_teams ^^ j) (x # xs) = x # ys" "rotate j ys = xs"
    "length ys = length xs" by blast
  have len: "length ts - 1 = length ys" using ts0 ys(3) by simp
  have "k < length ys" using assms(2) len by simp
  then have "rotate j ys ! k = ys ! ((j + k) mod length ys)"
    by (rule nth_rotate)
  then have "ys ! ((j + k) mod length ys) = xs ! k"
    by (simp only: ys(2))
  then show ?thesis
    by (simp only: len) (simp only: ts0 ys(1) nth_Cons_Suc)
qed

section \<open>Arithmetic modulo the odd number of rounds\<close>

text \<open>
  The inner loop pairs the places \<open>i\<close> and \<open>n - 1 - i\<close>. Two teams other than the first
  meet in the round \<open>j\<close> in which their places add up to \<open>n - 1\<close>; as the number of rounds
  \<open>q = n - 1\<close> is odd, \<open>2\<close> has an inverse modulo \<open>q\<close> and that round exists.
\<close>

lemma shifted_mod_neq:
  fixes q k l j :: nat
  assumes "k < q" "l < q" "k \<noteq> l"
  shows "(j + k) mod q \<noteq> (j + l) mod q"
proof
  assume eq: "(j + k) mod q = (j + l) mod q"
  show False
  proof (cases "k < l")
    case True
    then have le: "j + k \<le> j + l" by simp
    from eq have "q dvd (j + l) - (j + k)"
      using mod_eq_dvd_iff_nat[OF le, of q] by simp
    then have "q dvd l - k" by simp
    moreover have "0 < l - k" "l - k < q" using True assms by simp_all
    ultimately show False by (simp add: nat_dvd_not_less)
  next
    case False
    with assms have lk: "l < k" by simp
    then have le: "j + l \<le> j + k" by simp
    from eq have "q dvd (j + k) - (j + l)"
      using mod_eq_dvd_iff_nat[OF le, of q] by simp
    then have "q dvd k - l" by simp
    moreover have "0 < k - l" "k - l < q" using lk assms by simp_all
    ultimately show False by (simp add: nat_dvd_not_less)
  qed
qed

lemma multiple_below_double:
  fixes q x :: nat
  assumes "x mod q = 0" "0 < x" "x < 2 * q"
  shows "x = q"
proof -
  from assms(1) have "q dvd x" by (simp add: mod_eq_0_iff_dvd)
  then obtain c where c: "x = q * c" ..
  with assms(2) have "0 < c" by (cases c) simp_all
  moreover have "c < 2"
  proof (rule ccontr)
    assume "\<not> c < 2"
    then have "2 \<le> c" by simp
    then have "q * 2 \<le> q * c" by (rule mult_le_mono2)
    with c assms(3) show False by simp
  qed
  ultimately have "c = 1" by simp
  with c show ?thesis by simp
qed

lemma half_inverse:
  fixes q a :: nat
  assumes "odd q"
  shows "(2 * ((a * ((q + 1) div 2)) mod q)) mod q = a mod q"
proof -
  from assms have h2: "2 * ((q + 1) div 2) = q + 1" by presburger
  have "(2 * ((a * ((q + 1) div 2)) mod q)) mod q = (2 * (a * ((q + 1) div 2))) mod q"
    by (rule mod_mult_right_eq)
  also have "2 * (a * ((q + 1) div 2)) = a * (2 * ((q + 1) div 2))" by (simp only: mult.left_commute)
  also have "\<dots> = a * q + a" unfolding h2 by (simp only: distrib_left mult_1_right)
  also have "(a * q + a) mod q = a mod q" by (rule mod_mult_self3)
  finally show ?thesis .
qed

lemma circle_round_exists:
  fixes q k l :: nat
  assumes "odd q" "k < q" "l < q" "k \<noteq> l"
  shows "\<exists>j<q. (j + k) mod q + (j + l) mod q = q - 2"
proof -
  define s where "s = (k + l + 2) mod q"
  define j where "j = ((q - s) * ((q + 1) div 2)) mod q"
  from assms have qpos: "0 < q" by simp
  then have s_lt: "s < q" by (simp add: s_def)
  have jq: "j < q" using qpos by (simp add: j_def)
  have tj: "(2 * j) mod q = (q - s) mod q"
    unfolding j_def by (rule half_inverse[OF assms(1)])
  have qs: "(q - s) + s = q" using s_lt by arith
  have "(2 * j + s) mod q = ((2 * j) mod q + s) mod q"
    by (rule mod_add_left_eq[symmetric])
  also have "\<dots> = ((q - s) mod q + s) mod q" by (simp only: tj)
  also have "\<dots> = ((q - s) + s) mod q" by (rule mod_add_left_eq)
  also have "\<dots> = 0" by (simp only: qs mod_self)
  finally have z: "(2 * j + s) mod q = 0" .
  have "(2 * j + (k + l + 2)) mod q = (2 * j + (k + l + 2) mod q) mod q"
    by (rule mod_add_right_eq[symmetric])
  also have "\<dots> = 0" using z by (simp only: s_def)
  finally have z2: "(2 * j + (k + l + 2)) mod q = 0" .
  have re: "(j + k) + (j + l) + 2 = 2 * j + (k + l + 2)" by arith
  have "((j + k) mod q + (j + l) mod q + 2) mod q = (((j + k) mod q + (j + l) mod q) mod q + 2) mod q"
    by (rule mod_add_left_eq[symmetric])
  also have "\<dots> = (((j + k) + (j + l)) mod q + 2) mod q"
    by (simp only: mod_add_eq)
  also have "\<dots> = ((j + k) + (j + l) + 2) mod q"
    by (rule mod_add_left_eq)
  also have "\<dots> = 0" by (simp only: re z2)
  finally have dv: "((j + k) mod q + (j + l) mod q + 2) mod q = 0" .
  define p1 where "p1 = (j + k) mod q"
  define p2 where "p2 = (j + l) mod q"
  have ne: "p1 \<noteq> p2"
    unfolding p1_def p2_def using assms(2-4) by (rule shifted_mod_neq)
  have b1: "p1 < q" "p2 < q" using qpos by (simp_all add: p1_def p2_def)
  have dv': "(p1 + p2 + 2) mod q = 0" using dv by (simp only: p1_def p2_def)
  from ne b1 have lt: "p1 + p2 + 2 < 2 * q" by arith
  have pos: "0 < p1 + p2 + 2" by simp
  have "p1 + p2 + 2 = q"
    by (rule multiple_below_double[OF dv' pos lt])
  then have "p1 + p2 = q - 2" by arith
  then have "(j + k) mod q + (j + l) mod q = q - 2" by (simp only: p1_def p2_def)
  with jq show ?thesis by blast
qed

section \<open>Every two teams meet in some round\<close>

lemma circle_covers:
  assumes ev: "even (length ts)" and uv: "u < v" and vm: "v < length ts"
  shows "\<exists>j < length ts - 1. \<exists>i < length ts div 2.
           up (pairing ((rotate_teams ^^ j) ts) (length ts) i) = {ts ! u, ts ! v}"
proof -
  define m where "m = length ts"
  define q where "q = m - 1"
  have m2: "2 \<le> length ts" using uv vm by simp
  have mq: "m = Suc q" using m2 by (simp add: q_def m_def)
  have oddq: "odd q" using ev mq by (simp add: m_def)
  have len1: "length ts - 1 = q" by (simp add: q_def m_def)
  have len1': "length ts - Suc 0 = q" by (simp add: q_def m_def)
  show ?thesis
  proof (cases "u = 0")
    case True
    define k where "k = v - 1"
    have kq: "k < q" using uv vm True by (simp add: k_def q_def m_def)
    have vk: "v = Suc k" using uv by (simp add: k_def)
    define j where "j = q - 1 - k"
    have jq: "j < q" using kq by (simp add: j_def)
    have "j + k = q - 1" using kq by (simp add: j_def)
    then have jk: "(j + k) mod q = q - 1" using kq by simp
    have kq': "k < length ts - 1" using kq by (simp only: len1)
    have "(rotate_teams ^^ j) ts ! Suc ((j + k) mod (length ts - 1)) = ts ! Suc k"
      using m2 kq' by (rule funpow_rotate_teams_nth)
    then have "(rotate_teams ^^ j) ts ! Suc (q - 1) = ts ! v"
      by (simp only: len1 jk vk)
    moreover have "Suc (q - 1) = q" using kq by arith
    ultimately have a: "(rotate_teams ^^ j) ts ! q = ts ! v" by (simp only:)
    have b: "(rotate_teams ^^ j) ts ! 0 = ts ! 0"
      using m2 by (rule funpow_rotate_teams_nth0)
    have "up (pairing ((rotate_teams ^^ j) ts) (length ts) 0) = {ts ! u, ts ! v}"
      using a b True by (simp add: up_def pairing_def len1')
    moreover have "0 < length ts div 2" using m2 by simp
    ultimately show ?thesis using jq len1 by blast
  next
    case False
    define k where "k = u - 1"
    define l where "l = v - 1"
    have uk: "u = Suc k" and vl: "v = Suc l" using False uv by (simp_all add: k_def l_def)
    have kl: "k < l" and lq: "l < q" using uv vm uk vl mq by (simp_all add: m_def)
    then have kq: "k < q" and kne: "k \<noteq> l" by simp_all
    from circle_round_exists[OF oddq kq lq kne]
    obtain j where jq: "j < q" and sum: "(j + k) mod q + (j + l) mod q = q - 2" by blast
    define p1 where "p1 = (j + k) mod q"
    define p2 where "p2 = (j + l) mod q"
    have s12: "p1 + p2 = q - 2" using sum by (simp only: p1_def p2_def)
    have q3: "3 \<le> q" using kl lq oddq by (cases "q = 2") auto
    have ne12: "p1 \<noteq> p2"
      unfolding p1_def p2_def using kq lq kne by (rule shifted_mod_neq)
    define R where "R = (rotate_teams ^^ j) ts"
    have kq': "k < length ts - 1" using kq by (simp only: len1)
    have lq': "l < length ts - 1" using lq by (simp only: len1)
    have "R ! Suc ((j + k) mod (length ts - 1)) = ts ! Suc k"
      unfolding R_def using m2 kq' by (rule funpow_rotate_teams_nth)
    then have r1: "R ! Suc p1 = ts ! u" by (simp only: len1 p1_def uk)
    have "R ! Suc ((j + l) mod (length ts - 1)) = ts ! Suc l"
      unfolding R_def using m2 lq' by (rule funpow_rotate_teams_nth)
    then have r2: "R ! Suc p2 = ts ! v" by (simp only: len1 p2_def vl)
    have lm: "length ts = Suc q" using mq by (simp add: m_def)
    show ?thesis
    proof (cases "p1 < p2")
      case True
      have i1: "length ts - 1 - Suc p1 = Suc p2" using s12 q3 True lm by arith
      have i2: "Suc p1 < length ts div 2" using s12 q3 True lm by arith
      have "up (pairing R (length ts) (Suc p1)) = {ts ! u, ts ! v}"
        by (simp only: up_def pairing_def fst_conv snd_conv i1 r1 r2)
      with i2 jq show ?thesis unfolding R_def len1 by blast
    next
      case False
      with ne12 have lt: "p2 < p1" by simp
      have i1: "length ts - 1 - Suc p2 = Suc p1" using s12 q3 lt lm by arith
      have i2: "Suc p2 < length ts div 2" using s12 q3 lt lm by arith
      have "up (pairing R (length ts) (Suc p2)) = {ts ! v, ts ! u}"
        by (simp only: up_def pairing_def fst_conv snd_conv i1 r1 r2)
      then have "up (pairing R (length ts) (Suc p2)) = {ts ! u, ts ! v}"
        by (simp only: insert_commute)
      with i2 jq show ?thesis unfolding R_def len1 by blast
    qed
  qed
qed

section \<open>Every two teams meet only once\<close>

text \<open>
  The rounds hold \<open>(n - 1) * n / 2\<close> pairings, as many as there are sets of two teams. Each
  such set is among the pairings, so no pairing is left to repeat one.
\<close>

lemma set_all_pairs:
  "set (all_pairs ts n r) =
     {pairing ((rotate_teams ^^ j) ts) n i | j i. j < r \<and> i < (n + 1) div 2}"
  by (fastforce simp: all_pairs_def round_pairs_def)

lemma length_all_pairs: "length (all_pairs ts n r) = r * ((n + 1) div 2)"
  by (simp add: all_pairs_def length_concat round_pairs_def comp_def sum_list_triv)

lemma two_subsets_covered:
  assumes ev: "even (length ts)"
  shows "{S. S \<subseteq> set ts \<and> card S = 2} \<subseteq> up ` set (all_pairs ts (length ts) (length ts - 1))"
proof
  fix S assume "S \<in> {S. S \<subseteq> set ts \<and> card S = 2}"
  then have sub: "S \<subseteq> set ts" and c2: "card S = 2" by simp_all
  from c2 obtain a b where S: "S = {a, b}" and ab: "a \<noteq> b"
    by (auto simp: card_2_iff)
  from sub S obtain u v where u: "u < length ts" "ts ! u = a" and v: "v < length ts" "ts ! v = b"
    by (auto simp: in_set_conv_nth)
  with ab have uv: "u \<noteq> v" by auto
  have half: "length ts div 2 = (length ts + 1) div 2" using ev by presburger
  have "\<exists>j < length ts - 1. \<exists>i < length ts div 2.
          up (pairing ((rotate_teams ^^ j) ts) (length ts) i) = S"
  proof (cases "u < v")
    case True
    from circle_covers[OF ev True v(1)] show ?thesis by (simp only: S u v)
  next
    case False
    with uv have "v < u" by simp
    from circle_covers[OF ev this u(1)] show ?thesis
      by (simp only: S u v insert_commute)
  qed
  then obtain j i where "j < length ts - 1" "i < (length ts + 1) div 2"
    "up (pairing ((rotate_teams ^^ j) ts) (length ts) i) = S"
    unfolding half by blast
  then show "S \<in> up ` set (all_pairs ts (length ts) (length ts - 1))"
    unfolding set_all_pairs by blast
qed

lemma even_choose_two:
  assumes "even (m::nat)"
  shows "m choose 2 = (m - 1) * ((m + 1) div 2)"
proof -
  from assms obtain c where c: "m = 2 * c" by (auto elim: evenE)
  have "m choose 2 = m * (m - 1) div 2" by (rule choose_two)
  also have "\<dots> = c * (m - 1)" unfolding c by simp
  finally have a: "m choose 2 = c * (m - 1)" .
  have "(m + 1) div 2 = c" unfolding c by simp
  with a show ?thesis by (simp add: mult.commute)
qed

lemma all_pairs_partition:
  assumes d: "distinct ts" and ev: "even (length ts)"
  defines "L \<equiv> all_pairs ts (length ts) (length ts - 1)"
  shows "distinct (map up L)"
    and "set (map up L) = {S. S \<subseteq> set ts \<and> card S = 2}"
proof -
  let ?T = "{S. S \<subseteq> set ts \<and> card S = 2}"
  have cardT: "card ?T = length (map up L)"
    using n_subsets[of "set ts" 2] d
    by (simp add: distinct_card even_choose_two[OF ev] L_def length_all_pairs)
  have sub: "?T \<subseteq> set (map up L)"
    using two_subsets_covered[OF ev] by (simp add: L_def)
  have "card ?T \<le> card (set (map up L))"
    using sub by (intro card_mono) simp_all
  moreover have "card (set (map up L)) \<le> length (map up L)" by (rule card_length)
  ultimately have ceq: "card (set (map up L)) = length (map up L)"
    using cardT by simp
  then show "distinct (map up L)" by (rule card_distinct)
  have "card ?T = card (set (map up L))" using ceq cardT by simp
  with sub show "set (map up L) = ?T"
    by (intro card_subset_eq[symmetric]) simp_all
qed

section \<open>The generator as a whole\<close>

lemma generate_eq:
  "generateRoundRobinSchedule tz L ids s e v =
     (if length ids < 2 then Inl InsufficientParticipants
      else if (e - s) div ms_per_day < (int (length ids) * (int (length ids) - 1)) div 2
      then Inl (InsufficientSchedulingWindow ((e - s) div ms_per_day)
                  ((int (length ids) * (int (length ids) - 1)) div 2))
      else Inr (mk_fixtures tz L s
                  (((e - s) div ms_per_day) div ((int (length ids) * (int (length ids) - 1)) div 2))
                  v 0 (schedule_pairs ids)))"
  by (simp add: generateRoundRobinSchedule_def Let_def rounds_loop_eq schedule_pairs_def
        working_teams_def)

lemma map_pair_mk_fixtures:
  "map (\<lambda>f. (teamA f, teamB f)) (mk_fixtures tz L s d v k ps) = ps"
  by (induction ps arbitrary: k) simp_all

lemma playable_iff: "playable p \<longleftrightarrow> ''dummy'' \<notin> up p"
  by (auto simp: playable_def up_def)

lemma schedule_pairs_partition:
  assumes d: "distinct ids" and nd: "''dummy'' \<notin> set ids"
  shows "distinct (map up (schedule_pairs ids))"
    and "set (map up (schedule_pairs ids)) = {S. S \<subseteq> set ids \<and> card S = 2}"
proof -
  define ts where "ts = working_teams ids"
  define L where "L = all_pairs ts (length ts) (length ts - 1)"
  have dts: "distinct ts" using d nd by (simp add: ts_def working_teams_def)
  have ev: "even (length ts)" by (simp add: ts_def working_teams_def) presburger
  have sets: "set ts - {''dummy''} = set ids"
    using nd by (auto simp: ts_def working_teams_def)
  have F: "schedule_pairs ids = filter playable L"
    by (simp add: schedule_pairs_def L_def ts_def)
  from all_pairs_partition[OF dts ev]
  have dl: "distinct (map up L)" and sl: "set (map up L) = {S. S \<subseteq> set ts \<and> card S = 2}"
    by (simp_all add: L_def)
  show "distinct (map up (schedule_pairs ids))"
    unfolding F using dl by (rule distinct_map_filter)
  have "set (map up (filter playable L)) = {S \<in> set (map up L). ''dummy'' \<notin> S}"
    by (auto simp: playable_iff)
  also have "\<dots> = {S. S \<subseteq> set ids \<and> card S = 2}"
    unfolding sl using sets by auto
  finally show "set (map up (schedule_pairs ids)) = {S. S \<subseteq> set ids \<and> card S = 2}"
    unfolding F .
qed

lemma distinct_count_one:
  "distinct xs \<Longrightarrow> x \<in> set xs \<Longrightarrow> length (filter (\<lambda>y. y = x) xs) = 1"
  by (induction xs) (auto simp: filter_empty_conv)

lemma plays_iff: "plays f a b \<longleftrightarrow> up (teamA f, teamB f) = {a, b}"
  by (auto simp: plays_def up_def doubleton_eq_iff)


lemma mk_fixtures_sides:
  "map (\<lambda>f. (teamA f, teamB f, location f, status f)) (mk_fixtures tz L s d v k ps)
     = map (\<lambda>p. (fst p, snd p, v, scheduled)) ps"
  by (induction ps arbitrary: k) simp_all

lemma mk_fixtures_dates_cong:
  assumes "\<And>j. add_days tz s j = add_days tz' s j"
  shows "map (\<lambda>f. (teamA f, teamB f, scheduledDate f, location f, status f))
           (mk_fixtures tz L s d v k ps)
         = map (\<lambda>f. (teamA f, teamB f, scheduledDate f, location f, status f))
             (mk_fixtures tz' L' s d v k ps)"
  by (induction ps arbitrary: k) (simp_all add: assms)


lemma add_days_explicit:
  "add_days tz s k = s + tz s True + k * ms_per_day - tz (s + tz s True + k * ms_per_day) False"
  by (simp add: add_days_def UTC_def LocalTime_def)

lemma add_days_fixed_offset:
  "(\<And>t isUTC. tz t isUTC = offset) \<Longrightarrow> add_days tz s k = s + k * ms_per_day"
  by (simp add: add_days_explicit)

section \<open>Counting sets and games\<close>

declare rank_loop.simps [simp del] wins_loop.simps [simp del]

lemma zip_conv_nth:
  "length xs = length ys \<Longrightarrow> zip xs ys = map (\<lambda>j. (xs ! j, ys ! j)) [0..<length xs]"
  by (rule nth_equalityI) simp_all

lemma zip_upt_conv_nth:
  "zip xs [0..<length xs] = map (\<lambda>j. (xs ! j, j)) [0..<length xs]"
  by (rule nth_equalityI) simp_all

lemma set_wins_nth:
  "length own = length other \<Longrightarrow>
     set_wins own other = int (length (filter (\<lambda>j. own ! j > other ! j) [0..<length own]))"
  by (simp add: set_wins_def zip_conv_nth filter_map comp_def)

lemma count_sets_won_eq:
  assumes "length own = length other"
  shows "count_sets_won own other = set_wins own other"
proof -
  have "filter (\<lambda>j. j < length other \<and> own ! j > other ! j) [0..<length own]
          = filter (\<lambda>j. own ! j > other ! j) [0..<length own]"
    using assms by (intro filter_cong) simp_all
  then have "length (filter (\<lambda>(score, index). index < length other \<and> score > other ! index)
                    (zip own [0..<length own]))
          = length (filter (\<lambda>j. own ! j > other ! j) [0..<length own])"
    unfolding zip_upt_conv_nth by (simp add: filter_map comp_def)
  then show ?thesis
    unfolding count_sets_won_def set_wins_nth[OF assms] by simp
qed

lemma count_games_eq: "count_games scores = sum_list scores"
proof -
  have "foldl (\<lambda>sum score. sum + score) a scores = a + sum_list scores" for a
    by (induction scores arbitrary: a) (simp_all add: add.assoc)
  from this[of 0] show ?thesis by (simp add: count_games_def)
qed

lemma wins_loop_eq:
  assumes "length a = length b"
  shows "wins_loop a b i (wa, wb) =
           (if \<exists>j \<in> set [i..<length a]. a ! j = b ! j then Inl TiedSet
            else Inr (wa + int (length (filter (\<lambda>j. a ! j > b ! j) [i..<length a])),
                      wb + int (length (filter (\<lambda>j. b ! j > a ! j) [i..<length a]))))"
  using assms
proof (induction a b i "(wa, wb)" arbitrary: wa wb rule: wins_loop.induct)
  case (1 a b i wa wb)
  show ?case
  proof (cases "i < length a")
    case False
    then show ?thesis by (subst wins_loop.simps) simp
  next
    case True
    then have upt: "[i..<length a] = i # [Suc i..<length a]" by (simp add: upt_conv_Cons)
    consider (gt) "a ! i > b ! i" | (lt) "b ! i > a ! i" | (eq) "a ! i = b ! i" by linarith
    then show ?thesis
    proof cases
      case gt
      with True "1.prems" have c: "i < length b \<and> b ! i < a ! i" by simp
      from "1.hyps"(1)[OF True c "1.prems"] gt True c show ?thesis
        by (subst wins_loop.simps) (simp add: upt del: upt.simps set_upt)
    next
      case lt
      with True "1.prems" have c1: "\<not> (i < length b \<and> b ! i < a ! i)"
        and c2: "i < length b \<and> a ! i < b ! i" by simp_all
      from "1.hyps"(2)[OF True c1 c2 "1.prems"] lt True c1 c2 show ?thesis
        by (subst wins_loop.simps) (simp add: upt del: upt.simps set_upt)
    next
      case eq
      with True show ?thesis
        by (subst wins_loop.simps) (simp add: upt del: upt.simps set_upt)
    qed
  qed
qed

lemma validate_scores_eq:
  assumes "rq_teamAScore data = Some a" "rq_teamBScore data = Some b"
  shows "validate_scores data match =
           (if length a \<noteq> length b then Inl SetCountMismatch
            else if a = [] then Inl NoSetsPlayed
            else if \<exists>j < length a. a ! j = b ! j then Inl TiedSet
            else if set_wins a b > set_wins b a then Inr (m_teamA match)
            else if set_wins b a > set_wins a b then Inr (m_teamB match)
            else Inl NoWinner)"
proof (cases "length a = length b")
  case False
  then show ?thesis by (simp add: validate_scores_def assms)
next
  case True
  then have ba: "length b = length a" by simp
  show ?thesis
    using True
    by (auto simp: validate_scores_def assms wins_loop_eq[OF True] set_wins_nth[OF True]
          set_wins_nth[OF ba] ba)
qed

section \<open>The standings store\<close>

lemma findOne_key: "findOne L t st = find (\<lambda>r. key r = (L, t)) st"
  by (simp add: findOne_def key_def)

lemma save_key:
  "save doc st =
     (if key doc \<in> set (map key st)
      then map (\<lambda>r. if key r = key doc then doc else r) st else st @ [doc])"
proof -
  have "list_ex (\<lambda>r. league r = league doc \<and> team r = team doc) st
          \<longleftrightarrow> key doc \<in> set (map key st)"
    by (induction st) (auto simp: key_def)
  then show ?thesis by (simp add: save_def key_def)
qed

lemma map_key_save:
  "map key (save doc st) = (if key doc \<in> set (map key st) then map key st else map key st @ [key doc])"
  by (simp add: save_key)

lemma distinct_keys_save: "distinct (map key st) \<Longrightarrow> distinct (map key (save doc st))"
  by (simp add: map_key_save)

lemma findOne_save_same: "findOne (league doc) (team doc) (save doc st) = Some doc"
proof -
  have a: "find (\<lambda>r. key r = key doc) (map (\<lambda>r. if key r = key doc then doc else r) st) = Some doc"
    if "key doc \<in> set (map key st)"
    using that by (induction st) auto
  have b: "find (\<lambda>r. key r = key doc) (st @ [doc]) = Some doc" if "key doc \<notin> set (map key st)"
    using that by (induction st) auto
  have "find (\<lambda>r. key r = key doc) (save doc st) = Some doc"
    using a b by (simp add: save_key)
  then show ?thesis by (simp add: findOne_key key_def)
qed

lemma findOne_save_other:
  assumes "(L, t) \<noteq> key doc"
  shows "findOne L t (save doc st) = findOne L t st"
proof -
  have a: "find (\<lambda>r. key r = (L, t)) (map (\<lambda>r. if key r = key doc then doc else r) st)
             = find (\<lambda>r. key r = (L, t)) st"
    using assms by (induction st) auto
  have b: "find (\<lambda>r. key r = (L, t)) (st @ [doc]) = find (\<lambda>r. key r = (L, t)) st"
    using assms by (induction st) auto
  show ?thesis using a b by (simp add: findOne_key save_key)
qed

lemma findOne_Some:
  "findOne L t st = Some r \<Longrightarrow> r \<in> set st \<and> key r = (L, t)"
  unfolding findOne_key by (induction st) (auto split: if_splits)

lemma findOne_distinct:
  "distinct (map key st) \<Longrightarrow> r \<in> set st \<Longrightarrow> findOne (league r) (team r) st = Some r"
  unfolding findOne_key by (induction st) (auto simp: key_def)

lemma key_rank_update [simp]: "key (r\<lparr>rank := k\<rparr>) = key r"
  by (simp add: key_def)

lemma rank_loop_rank_from: "rank_loop rs i st = rank_from i (drop i rs) st"
proof (induction rs i st rule: rank_loop.induct)
  case (1 rs i st)
  show ?case
  proof (cases "i < length rs")
    case True
    then have "drop i rs = rs ! i # drop (Suc i) rs" by (simp add: Cons_nth_drop_Suc)
    with "1.IH"[OF True] True show ?thesis
      by (subst rank_loop.simps) simp
  next
    case False
    then show ?thesis by (subst rank_loop.simps) simp
  qed
qed

lemma map_key_rank_from:
  "set (map key rs) \<subseteq> set (map key st) \<Longrightarrow> map key (rank_from i rs st) = map key st"
proof (induction rs arbitrary: i st)
  case Nil
  then show ?case by simp
next
  case (Cons r rs)
  from Cons.prems have mk: "map key (save (r\<lparr>rank := int i + 1\<rparr>) st) = map key st"
    by (simp add: map_key_save)
  with Cons.prems have "set (map key rs) \<subseteq> set (map key (save (r\<lparr>rank := int i + 1\<rparr>) st))"
    by simp
  from Cons.IH[OF this] mk show ?case by simp
qed

lemma findOne_rank_from_other:
  "(L, t) \<notin> set (map key rs) \<Longrightarrow> findOne L t (rank_from i rs st) = findOne L t st"
proof (induction rs arbitrary: i st)
  case Nil
  then show ?case by simp
next
  case (Cons r rs)
  then have a: "(L, t) \<noteq> key (r\<lparr>rank := int i + 1\<rparr>)" and b: "(L, t) \<notin> set (map key rs)"
    by auto
  from Cons.IH[OF b] findOne_save_other[OF a] show ?case by simp
qed

lemma findOne_rank_from_nth:
  "distinct (map key rs) \<Longrightarrow> j < length rs \<Longrightarrow>
     findOne (league (rs ! j)) (team (rs ! j)) (rank_from i rs st)
       = Some ((rs ! j)\<lparr>rank := int (i + j) + 1\<rparr>)"
proof (induction rs arbitrary: i j st)
  case Nil
  then show ?case by simp
next
  case (Cons r rs)
  show ?case
  proof (cases j)
    case 0
    from Cons.prems have "(league r, team r) \<notin> set (map key rs)"
      by (simp add: key_def)
    from findOne_rank_from_other[OF this]
      findOne_save_same[of "r\<lparr>rank := int i + 1\<rparr>" st] 0
    show ?thesis by simp
  next
    case (Suc j')
    with Cons.prems have d: "distinct (map key rs)" and j': "j' < length rs" by simp_all
    from Cons.IH[OF d j', of "i + 1"] Suc show ?thesis by simp
  qed
qed

lemma distinct_keys_find_sorted:
  assumes "distinct (map key st)"
  shows "distinct (map key (find_sorted L st))"
proof -
  have "distinct (map key (filter (\<lambda>r. league r = L) st))"
    using assms by (rule distinct_map_filter)
  moreover have "mset (map key (find_sorted L st)) = mset (map key (filter (\<lambda>r. league r = L) st))"
    by (simp add: find_sorted_def)
  ultimately show ?thesis by (metis mset_eq_imp_distinct_iff)
qed

lemma set_find_sorted: "set (find_sorted L st) = {r \<in> set st. league r = L}"
  by (auto simp: find_sorted_def)



section \<open>Recomputing the ranks\<close>

lemma recompute_entries:
  fixes L :: string and st :: ranking_store
  assumes d: "distinct (map key st)"
  defines "rs \<equiv> find_sorted L st"
  defines "st' \<equiv> rank_loop rs 0 st"
  shows "map key st' = map key st"
    and "distinct (map key st')"
    and "\<And>x. x \<in> set st' \<Longrightarrow> league x = L \<Longrightarrow> \<exists>j < length rs. x = (rs ! j)\<lparr>rank := int j + 1\<rparr>"
    and "\<And>r. r \<in> set st \<Longrightarrow> league r = L \<Longrightarrow> \<exists>k. findOne L (team r) st' = Some (r\<lparr>rank := k\<rparr>)"
proof -
  have st': "st' = rank_from 0 rs st"
    by (simp add: st'_def rank_loop_rank_from)
  have sub: "set (map key rs) \<subseteq> set (map key st)"
    by (auto simp: rs_def set_find_sorted)
  show mk: "map key st' = map key st"
    unfolding st' using sub by (rule map_key_rank_from)
  show d': "distinct (map key st')" using d by (simp add: mk)
  have drs: "distinct (map key rs)"
    unfolding rs_def using d by (rule distinct_keys_find_sorted)
  have nth: "findOne (league (rs ! j)) (team (rs ! j)) st' = Some ((rs ! j)\<lparr>rank := int j + 1\<rparr>)"
    if "j < length rs" for j
    using findOne_rank_from_nth[OF drs that, of 0 st] by (simp add: st')
  show "\<exists>j < length rs. x = (rs ! j)\<lparr>rank := int j + 1\<rparr>"
    if x: "x \<in> set st'" and lx: "league x = L" for x
  proof -
    from x have "key x \<in> set (map key st')" by simp
    then have "key x \<in> set (map key st)" by (simp only: mk)
    then obtain y where y: "y \<in> set st" "key y = key x" by auto
    with lx have "league y = L" by (simp add: key_def)
    with y have "y \<in> set rs" by (simp add: rs_def set_find_sorted)
    then obtain j where j: "j < length rs" "rs ! j = y" by (auto simp: in_set_conv_nth)
    from y(2) have yx: "league y = league x" "team y = team x" by (simp_all add: key_def)
    from nth[OF j(1)] have "findOne (league x) (team x) st' = Some (y\<lparr>rank := int j + 1\<rparr>)"
      by (simp add: j(2) yx)
    moreover from findOne_distinct[OF d' x] have "findOne (league x) (team x) st' = Some x" .
    ultimately have "x = y\<lparr>rank := int j + 1\<rparr>" by simp
    with j show ?thesis by blast
  qed
  show "\<exists>k. findOne L (team r) st' = Some (r\<lparr>rank := k\<rparr>)"
    if r: "r \<in> set st" and lr: "league r = L" for r
  proof -
    from r lr have "r \<in> set rs" by (simp add: rs_def set_find_sorted)
    then obtain j where j: "j < length rs" "rs ! j = r" by (auto simp: in_set_conv_nth)
    from nth[OF j(1)] show ?thesis by (auto simp: j(2) lr)
  qed
qed



section \<open>The update of the two sides\<close>

lemma key_updateWithMatchResult [simp]:
  "key (updateWithMatchResult now w sw sl gw gl ppw ppl r) = key r"
  by (simp add: updateWithMatchResult_def key_def Let_def)

lemma key_entry_or_new [simp]: "key (entry_or_new now L t st) = (L, t)"
  by (auto simp: entry_or_new_def key_def new_ranking_def dest: findOne_Some split: option.splits)

lemma updateRankings_unfold:
  "updateRankings nowA nowB L tA tB w a b ppw ppl st =
     (let rA = updateWithMatchResult nowA (w = tA) (count_sets_won a b) (count_sets_won b a)
                 (count_games a) (count_games b) ppw ppl (entry_or_new nowA L tA st);
          st1 = save rA st;
          rB = updateWithMatchResult nowB (w = tB) (count_sets_won b a) (count_sets_won a b)
                 (count_games b) (count_games a) ppw ppl (entry_or_new nowB L tB st1);
          st2 = save rB st1
      in rank_loop (find_sorted L st2) 0 st2)"
  by (simp add: updateRankings_def entry_or_new_def Let_def)

lemma updateRankings_sides:
  assumes d: "distinct (map key st)" and ne: "tA \<noteq> tB"
  shows "\<exists>kA kB.
           findOne L tA (updateRankings nowA nowB L tA tB w a b ppw ppl st)
             = Some ((updateWithMatchResult nowA (w = tA) (count_sets_won a b)
                        (count_sets_won b a) (count_games a) (count_games b) ppw ppl
                        (entry_or_new nowA L tA st))\<lparr>rank := kA\<rparr>)
         \<and> findOne L tB (updateRankings nowA nowB L tA tB w a b ppw ppl st)
             = Some ((updateWithMatchResult nowB (w = tB) (count_sets_won b a)
                        (count_sets_won a b) (count_games b) (count_games a) ppw ppl
                        (entry_or_new nowB L tB st))\<lparr>rank := kB\<rparr>)"
proof -
  define rA where "rA = updateWithMatchResult nowA (w = tA) (count_sets_won a b)
      (count_sets_won b a) (count_games a) (count_games b) ppw ppl (entry_or_new nowA L tA st)"
  define st1 where "st1 = save rA st"
  define rB where "rB = updateWithMatchResult nowB (w = tB) (count_sets_won b a)
      (count_sets_won a b) (count_games b) (count_games a) ppw ppl (entry_or_new nowB L tB st1)"
  define st2 where "st2 = save rB st1"
  have upd: "updateRankings nowA nowB L tA tB w a b ppw ppl st = rank_loop (find_sorted L st2) 0 st2"
    by (simp add: updateRankings_unfold Let_def rA_def st1_def rB_def st2_def)
  have kA: "key rA = (L, tA)" and kB: "key rB = (L, tB)" by (simp_all add: rA_def rB_def)
  then have lA: "league rA = L" "team rA = tA" and lB: "league rB = L" "team rB = tB"
    by (simp_all add: key_def)
  have "findOne L tB st1 = findOne L tB st"
    unfolding st1_def using ne by (intro findOne_save_other) (simp add: kA)
  then have eB: "entry_or_new nowB L tB st1 = entry_or_new nowB L tB st"
    by (simp add: entry_or_new_def)
  have d2: "distinct (map key st2)"
    unfolding st2_def st1_def using d by (intro distinct_keys_save)
  have fB: "findOne L tB st2 = Some rB"
    unfolding st2_def using findOne_save_same[of rB st1] by (simp add: lB)
  have "findOne L tA st2 = findOne L tA st1"
    unfolding st2_def using ne by (intro findOne_save_other) (simp add: kB)
  also have "\<dots> = Some rA"
    unfolding st1_def using findOne_save_same[of rA st] by (simp add: lA)
  finally have fA: "findOne L tA st2 = Some rA" .
  from findOne_Some[OF fA] have mA: "rA \<in> set st2" by simp
  from findOne_Some[OF fB] have mB: "rB \<in> set st2" by simp
  from recompute_entries(4)[OF d2 mA lA(1)] obtain k1 where
    "findOne L (team rA) (rank_loop (find_sorted L st2) 0 st2) = Some (rA\<lparr>rank := k1\<rparr>)" by blast
  moreover from recompute_entries(4)[OF d2 mB lB(1)] obtain k2 where
    "findOne L (team rB) (rank_loop (find_sorted L st2) 0 st2) = Some (rB\<lparr>rank := k2\<rparr>)" by blast
  ultimately show ?thesis
    unfolding upd lA lB by (simp only: rA_def rB_def eB) blast
qed


lemma side_updated_updateWithMatchResult:
  "side_updated won sw sl gw gl ppw ppl old
     ((updateWithMatchResult now won sw sl gw gl ppw ppl old)\<lparr>rank := k\<rparr>)"
  by (simp add: side_updated_def updateWithMatchResult_def Let_def)

section \<open>Properties of the schedule generator\<close>

text \<open>
  C1, as stated for every list of distinct ids, fails when an id is the placeholder string:
  for the two teams \<open>''a''\<close> and \<open>''dummy''\<close> and a one-day window the generator succeeds
  with no fixture at all, where one is due.
\<close>

theorem round_robin_placeholder_id_counterexample:
  "distinct [''a'', ''dummy''] \<and> 2 \<le> length [''a'', ''dummy'']
   \<and> (int (length [''a'', ''dummy'']) * (int (length [''a'', ''dummy'']) - 1)) div 2
        \<le> (ms_per_day - 0) div ms_per_day
   \<and> generateRoundRobinSchedule utc ''L'' [''a'', ''dummy''] 0 ms_per_day None = Inr []
   \<and> length ([] :: fixture list) \<noteq> length [''a'', ''dummy''] * (length [''a'', ''dummy''] - 1) div 2"
  by (simp add: generateRoundRobinSchedule_def round_loop.simps rounds_loop.simps
        rotate_teams_def ms_per_day_def)

text \<open>
  C1 (amended): for every list of \<open>n \<ge> 2\<close> distinct participant ids none of which is the
  string \<open>''dummy''\<close>, and every window with \<open>totalMatches \<le> totalDays\<close>, the generator
  returns exactly \<open>n * (n - 1) / 2\<close> fixtures; every unordered pair of distinct participants
  is played by exactly one of them; no fixture pairs a participant with itself; every side
  of every fixture is a participant, so none is the bye placeholder.
\<close>

theorem round_robin_each_pair_once:
  assumes n2: "2 \<le> length teamIds"
    and d: "distinct teamIds"
    and nd: "''dummy'' \<notin> set teamIds"
    and window: "(int (length teamIds) * (int (length teamIds) - 1)) div 2
                   \<le> (endDate - startDate) div ms_per_day"
  shows "\<exists>fs. generateRoundRobinSchedule tz leagueId teamIds startDate endDate venue = Inr fs
           \<and> length fs = length teamIds * (length teamIds - 1) div 2
           \<and> (\<forall>a \<in> set teamIds. \<forall>b \<in> set teamIds. a \<noteq> b \<longrightarrow>
                 length (filter (\<lambda>f. plays f a b) fs) = 1)
           \<and> (\<forall>f \<in> set fs. teamA f \<noteq> teamB f
                 \<and> teamA f \<in> set teamIds \<and> teamB f \<in> set teamIds
                 \<and> teamA f \<noteq> ''dummy'' \<and> teamB f \<noteq> ''dummy'')"
proof -
  define dbm where "dbm = ((endDate - startDate) div ms_per_day)
      div ((int (length teamIds) * (int (length teamIds) - 1)) div 2)"
  define fs where "fs = mk_fixtures tz leagueId startDate dbm venue 0 (schedule_pairs teamIds)"
  let ?F = "schedule_pairs teamIds"
  let ?T = "{S. S \<subseteq> set teamIds \<and> card S = 2}"
  have gen: "generateRoundRobinSchedule tz leagueId teamIds startDate endDate venue = Inr fs"
    using n2 window by (simp add: generate_eq fs_def dbm_def)
  have prs: "map (\<lambda>f. (teamA f, teamB f)) fs = ?F"
    by (simp add: fs_def map_pair_mk_fixtures)
  have ups: "map (\<lambda>f. up (teamA f, teamB f)) fs = map up ?F"
    unfolding prs[symmetric] by (simp add: comp_def)
  from schedule_pairs_partition[OF d nd]
  have dF: "distinct (map up ?F)" and sF: "set (map up ?F) = ?T" by simp_all
  have "length fs = length (map up ?F)" by (simp add: fs_def)
  also have "\<dots> = card ?T" using dF sF by (metis distinct_card)
  also have "\<dots> = length teamIds choose 2"
    using n_subsets[of "set teamIds" 2] d by (simp add: distinct_card)
  finally have len: "length fs = length teamIds * (length teamIds - 1) div 2"
    by (simp add: choose_two)
  have once: "length (filter (\<lambda>f. plays f a b) fs) = 1"
    if "a \<in> set teamIds" "b \<in> set teamIds" "a \<noteq> b" for a b
  proof -
    from that have "{a, b} \<in> ?T" by simp
    then have mem: "{a, b} \<in> set (map up ?F)" by (simp only: sF)
    have "length (filter (\<lambda>f. plays f a b) fs)
            = length (filter (\<lambda>S. S = {a, b}) (map (\<lambda>f. up (teamA f, teamB f)) fs))"
      by (simp add: filter_map comp_def plays_iff)
    also have "\<dots> = 1" unfolding ups using dF mem by (rule distinct_count_one)
    finally show ?thesis .
  qed
  have each: "teamA f \<noteq> teamB f \<and> teamA f \<in> set teamIds \<and> teamB f \<in> set teamIds
      \<and> teamA f \<noteq> ''dummy'' \<and> teamB f \<noteq> ''dummy''" if "f \<in> set fs" for f
  proof -
    from that have "up (teamA f, teamB f) \<in> set (map (\<lambda>f. up (teamA f, teamB f)) fs)"
      by (simp add: image_iff) blast
    then have "up (teamA f, teamB f) \<in> ?T" by (simp only: ups sF)
    then have sub: "{teamA f, teamB f} \<subseteq> set teamIds" and c: "card {teamA f, teamB f} = 2"
      by (simp_all add: up_def)
    from c have "teamA f \<noteq> teamB f" by (auto simp: card_2_iff doubleton_eq_iff)
    with sub nd show ?thesis by auto
  qed
  from gen len once each show ?thesis by blast
qed

theorem round_robin_each_pair_once_witness:
  "2 \<le> length [''a'', ''b'', ''c'', ''d'', ''e'']
   \<and> distinct [''a'', ''b'', ''c'', ''d'', ''e'']
   \<and> ''dummy'' \<notin> set [''a'', ''b'', ''c'', ''d'', ''e'']
   \<and> (\<exists>fs. generateRoundRobinSchedule utc ''L'' [''a'', ''b'', ''c'', ''d'', ''e''] 0
               (10 * ms_per_day) None = Inr fs
          \<and> length fs = 10
          \<and> length (filter (\<lambda>f. plays f ''b'' ''d'') fs) = 1
          \<and> (\<forall>f \<in> set fs. teamA f \<noteq> teamB f \<and> teamA f \<noteq> ''dummy'' \<and> teamB f \<noteq> ''dummy''))"
proof -
  have h1: "2 \<le> length [''a'', ''b'', ''c'', ''d'', ''e'']" by simp
  have h2: "distinct [''a'', ''b'', ''c'', ''d'', ''e'']" by simp
  have h3: "''dummy'' \<notin> set [''a'', ''b'', ''c'', ''d'', ''e'']" by simp
  have h4: "(int (length [''a'', ''b'', ''c'', ''d'', ''e''])
              * (int (length [''a'', ''b'', ''c'', ''d'', ''e'']) - 1)) div 2
            \<le> (10 * ms_per_day - 0) div ms_per_day"
    by (simp add: ms_per_day_def)
  from round_robin_each_pair_once[OF h1 h2 h3 h4, where tz = utc and leagueId = "''L''"
      and venue = None]
  obtain fs where fs: "generateRoundRobinSchedule utc ''L'' [''a'', ''b'', ''c'', ''d'', ''e''] 0
               (10 * ms_per_day) None = Inr fs"
    "length fs = length [''a'', ''b'', ''c'', ''d'', ''e'']
        * (length [''a'', ''b'', ''c'', ''d'', ''e''] - 1) div 2"
    "\<forall>a \<in> set [''a'', ''b'', ''c'', ''d'', ''e'']. \<forall>b \<in> set [''a'', ''b'', ''c'', ''d'', ''e''].
        a \<noteq> b \<longrightarrow> length (filter (\<lambda>f. plays f a b) fs) = 1"
    "\<forall>f \<in> set fs. teamA f \<noteq> teamB f
        \<and> teamA f \<in> set [''a'', ''b'', ''c'', ''d'', ''e'']
        \<and> teamB f \<in> set [''a'', ''b'', ''c'', ''d'', ''e'']
        \<and> teamA f \<noteq> ''dummy'' \<and> teamB f \<noteq> ''dummy''"
    by blast
  from fs(2) have "length fs = 10" by simp
  moreover from fs(3) have "length (filter (\<lambda>f. plays f ''b'' ''d'') fs) = 1" by simp
  moreover from fs(4) have "\<forall>f \<in> set fs. teamA f \<noteq> teamB f \<and> teamA f \<noteq> ''dummy''
      \<and> teamB f \<noteq> ''dummy''" by blast
  ultimately show ?thesis using h1 h2 h3 fs(1) by blast
qed

text \<open>
  C5: the generator fails with \<open>InsufficientParticipants\<close> exactly when fewer than two
  ids are given; with two or more it fails with \<open>InsufficientSchedulingWindow\<close> exactly when
  \<open>totalDays < totalMatches\<close>, for \<open>totalDays = floor ((endDate - startDate) / day)\<close> and
  \<open>totalMatches = n * (n - 1) / 2\<close>; on every other input it returns a list of fixtures.
\<close>

theorem generator_failure_modes:
  "(generateRoundRobinSchedule tz leagueId teamIds startDate endDate venue
       = Inl InsufficientParticipants \<longleftrightarrow> length teamIds < 2)
   \<and> (2 \<le> length teamIds \<longrightarrow>
        ((\<exists>totalDays totalMatches.
             generateRoundRobinSchedule tz leagueId teamIds startDate endDate venue
               = Inl (InsufficientSchedulingWindow totalDays totalMatches))
         \<longleftrightarrow> (endDate - startDate) div ms_per_day
               < (int (length teamIds) * (int (length teamIds) - 1)) div 2))
   \<and> (2 \<le> length teamIds
        \<and> (int (length teamIds) * (int (length teamIds) - 1)) div 2
             \<le> (endDate - startDate) div ms_per_day \<longrightarrow>
        (\<exists>fs. generateRoundRobinSchedule tz leagueId teamIds startDate endDate venue = Inr fs))"
  by (simp add: generate_eq)

theorem generator_failure_modes_witness:
  "2 \<le> length [''a'', ''b'', ''c'', ''d'']
   \<and> generateRoundRobinSchedule utc ''L'' [''a'', ''b'', ''c'', ''d''] 0 (3 * ms_per_day) None
        = Inl (InsufficientSchedulingWindow 3 6)
   \<and> (\<exists>totalDays totalMatches.
         generateRoundRobinSchedule utc ''L'' [''a'', ''b'', ''c'', ''d''] 0 (3 * ms_per_day) None
           = Inl (InsufficientSchedulingWindow totalDays totalMatches))"
proof -
  have w: "(3 * ms_per_day - 0) div ms_per_day
             < (int (length [''a'', ''b'', ''c'', ''d''])
                  * (int (length [''a'', ''b'', ''c'', ''d'']) - 1)) div 2"
    by (simp add: ms_per_day_def)
  have n: "2 \<le> length [''a'', ''b'', ''c'', ''d'']" by simp
  from generator_failure_modes[of utc "''L''" "[''a'', ''b'', ''c'', ''d'']" 0 "3 * ms_per_day"
      None]
    n w
  have "\<exists>totalDays totalMatches.
         generateRoundRobinSchedule utc ''L'' [''a'', ''b'', ''c'', ''d''] 0 (3 * ms_per_day) None
           = Inl (InsufficientSchedulingWindow totalDays totalMatches)"
    by blast
  moreover have "generateRoundRobinSchedule utc ''L'' [''a'', ''b'', ''c'', ''d''] 0
        (3 * ms_per_day) None = Inl (InsufficientSchedulingWindow 3 6)"
    by (simp add: generateRoundRobinSchedule_def ms_per_day_def)
  ultimately show ?thesis using n by blast
qed




text \<open>
  C8, as stated, fails for the dates: the generator reads the time zone of the process, which
  is not among its arguments. With the same three teams, dates and venue, the second and
  third fixture are dated one hour earlier under Central European Time than under UTC.
\<close>

theorem generator_time_zone_counterexample:
  "map_sum id (map scheduledDate)
     (generateRoundRobinSchedule utc ''L'' [''a'', ''b'', ''c''] 1711744200000
        (1711744200000 + 7 * ms_per_day) None)
     = Inr [1711744200000, 1711917000000, 1712089800000]
   \<and> map_sum id (map scheduledDate)
       (generateRoundRobinSchedule cet_spring_2024 ''L'' [''a'', ''b'', ''c''] 1711744200000
          (1711744200000 + 7 * ms_per_day) None)
     = Inr [1711744200000, 1711913400000, 1712086200000]
   \<and> generateRoundRobinSchedule utc ''L'' [''a'', ''b'', ''c''] 1711744200000
        (1711744200000 + 7 * ms_per_day) None
     \<noteq> generateRoundRobinSchedule cet_spring_2024 ''L'' [''a'', ''b'', ''c''] 1711744200000
         (1711744200000 + 7 * ms_per_day) None"
proof -
  have u: "map_sum id (map scheduledDate)
     (generateRoundRobinSchedule utc ''L'' [''a'', ''b'', ''c''] 1711744200000
        (1711744200000 + 7 * ms_per_day) None)
     = Inr [1711744200000, 1711917000000, 1712089800000]"
    by (simp add: generateRoundRobinSchedule_def round_loop.simps rounds_loop.simps
          rotate_teams_def ms_per_day_def add_days_def UTC_def LocalTime_def utc_def)
  have c: "map_sum id (map scheduledDate)
       (generateRoundRobinSchedule cet_spring_2024 ''L'' [''a'', ''b'', ''c''] 1711744200000
          (1711744200000 + 7 * ms_per_day) None)
     = Inr [1711744200000, 1711913400000, 1712086200000]"
    by (simp add: generateRoundRobinSchedule_def round_loop.simps rounds_loop.simps
          rotate_teams_def ms_per_day_def add_days_def UTC_def LocalTime_def
          cet_spring_2024_def)
  from u c have "generateRoundRobinSchedule utc ''L'' [''a'', ''b'', ''c''] 1711744200000
        (1711744200000 + 7 * ms_per_day) None
     \<noteq> generateRoundRobinSchedule cet_spring_2024 ''L'' [''a'', ''b'', ''c''] 1711744200000
         (1711744200000 + 7 * ms_per_day) None"
    by auto
  with u c show ?thesis by blast
qed

text \<open>
  C8 (amended): two invocations with the same participant list, dates and venue fail alike
  or return lists that agree, position by position, on the two teams, the location and the
  status, whatever the league ids and the time zones they run under. They agree on the
  scheduled dates as well when the two zones have the same offset at \<open>startDate\<close> and the
  same offset at every local time (so under one zone), and also under any two zones without
  clock changes.
\<close>

theorem generator_deterministic:
  "map_sum id (map (\<lambda>f. (teamA f, teamB f, location f, status f)))
     (generateRoundRobinSchedule tz leagueId teamIds startDate endDate venue)
   = map_sum id (map (\<lambda>f. (teamA f, teamB f, location f, status f)))
       (generateRoundRobinSchedule tz' leagueId' teamIds startDate endDate venue)
   \<and> (tz' startDate True = tz startDate True \<and> (\<forall>t. tz' t False = tz t False) \<longrightarrow>
        map_sum id (map (\<lambda>f. (teamA f, teamB f, scheduledDate f, location f, status f)))
          (generateRoundRobinSchedule tz leagueId teamIds startDate endDate venue)
        = map_sum id (map (\<lambda>f. (teamA f, teamB f, scheduledDate f, location f, status f)))
            (generateRoundRobinSchedule tz' leagueId' teamIds startDate endDate venue))
   \<and> ((\<forall>t isUTC. tz t isUTC = offset) \<and> (\<forall>t isUTC. tz' t isUTC = offset') \<longrightarrow>
        map_sum id (map (\<lambda>f. (teamA f, teamB f, scheduledDate f, location f, status f)))
          (generateRoundRobinSchedule tz leagueId teamIds startDate endDate venue)
        = map_sum id (map (\<lambda>f. (teamA f, teamB f, scheduledDate f, location f, status f)))
            (generateRoundRobinSchedule tz' leagueId' teamIds startDate endDate venue))"
proof -
  have sides: "map_sum id (map (\<lambda>f. (teamA f, teamB f, location f, status f)))
     (generateRoundRobinSchedule tz leagueId teamIds startDate endDate venue)
   = map_sum id (map (\<lambda>f. (teamA f, teamB f, location f, status f)))
       (generateRoundRobinSchedule tz' leagueId' teamIds startDate endDate venue)"
    by (simp add: generate_eq mk_fixtures_sides)
  have dates: "map_sum id (map (\<lambda>f. (teamA f, teamB f, scheduledDate f, location f, status f)))
          (generateRoundRobinSchedule tz leagueId teamIds startDate endDate venue)
        = map_sum id (map (\<lambda>f. (teamA f, teamB f, scheduledDate f, location f, status f)))
            (generateRoundRobinSchedule tz' leagueId' teamIds startDate endDate venue)"
    if "\<And>j. add_days tz startDate j = add_days tz' startDate j"
    using mk_fixtures_dates_cong[of tz startDate tz', OF that]
    by (simp add: generate_eq)
  have same: "add_days tz startDate j = add_days tz' startDate j"
    if "tz' startDate True = tz startDate True \<and> (\<forall>t. tz' t False = tz t False)" for j
    using that by (simp add: add_days_explicit)
  have fixed: "add_days tz startDate j = add_days tz' startDate j"
    if "(\<forall>t isUTC. tz t isUTC = offset) \<and> (\<forall>t isUTC. tz' t isUTC = offset')" for j
    using that by (simp add: add_days_fixed_offset[of tz offset] add_days_fixed_offset[of tz' offset'])
  from sides dates same fixed show ?thesis by blast
qed

theorem generator_deterministic_witness:
  "(\<forall>t isUTC. utc t isUTC = 0) \<and> (\<forall>t isUTC. (\<lambda>t isUTC. 3600000 :: int) t isUTC = 3600000)
   \<and> map_sum id (map (\<lambda>f. (teamA f, teamB f, scheduledDate f, location f, status f)))
       (generateRoundRobinSchedule utc ''L1'' [''a'', ''b'', ''c'', ''d''] 1711744200000
          (1711744200000 + 6 * ms_per_day) None)
     = map_sum id (map (\<lambda>f. (teamA f, teamB f, scheduledDate f, location f, status f)))
         (generateRoundRobinSchedule (\<lambda>t isUTC. 3600000) ''L2'' [''a'', ''b'', ''c'', ''d'']
            1711744200000 (1711744200000 + 6 * ms_per_day) None)"
  using generator_deterministic[where tz = utc and tz' = "\<lambda>t isUTC. 3600000" and offset = 0
          and offset' = 3600000 and leagueId = "''L1''" and leagueId' = "''L2''"
          and teamIds = "[''a'', ''b'', ''c'', ''d'']" and startDate = 1711744200000
          and endDate = "1711744200000 + 6 * ms_per_day" and venue = None]
  by (simp add: utc_def)

text \<open>
  C9: the bye placeholder is the string \<open>''dummy''\<close>. For the three distinct ids
  \<open>''a''\<close>, \<open>''b''\<close>, \<open>''dummy''\<close> the generator succeeds, leaves out both pairings of the
  participant named \<open>''dummy''\<close>, and returns one fixture where three are due.
\<close>

theorem placeholder_id_is_skipped:
  "2 \<le> length [''a'', ''b'', ''dummy''] \<and> ''dummy'' \<in> set [''a'', ''b'', ''dummy'']
   \<and> generateRoundRobinSchedule utc ''L'' [''a'', ''b'', ''dummy''] 0 (5 * ms_per_day) None
       = Inr [\<lparr>fx_league = ''L'', teamA = ''a'', teamB = ''b'', scheduledDate = 0,
                location = None, status = scheduled\<rparr>]
   \<and> length [\<lparr>fx_league = ''L'', teamA = ''a'', teamB = ''b'', scheduledDate = 0,
                location = None, status = scheduled\<rparr>]
       < length [''a'', ''b'', ''dummy''] * (length [''a'', ''b'', ''dummy''] - 1) div 2"
  by (simp add: generateRoundRobinSchedule_def round_loop.simps rounds_loop.simps
        rotate_teams_def ms_per_day_def add_days_def UTC_def LocalTime_def utc_def)

section \<open>Properties of the standings engine\<close>

text \<open>
  C7: the per-entry update has no duplicate detection. Applied twice with the same
  arguments to any entry, it raises \<open>matchesPlayed\<close> by 2 and every other counter by twice
  the single increment, and the second application changes the entry again: the update is
  not idempotent.
\<close>

theorem update_twice_double_counts:
  "let once = updateWithMatchResult now isWinner sw sl gw gl pointsPerWin pointsPerLoss r;
       twice = updateWithMatchResult now' isWinner sw sl gw gl pointsPerWin pointsPerLoss once
   in matchesPlayed once = matchesPlayed r + 1 \<and> matchesPlayed twice = matchesPlayed r + 2
      \<and> matchesWon twice - matchesWon r = 2 * (matchesWon once - matchesWon r)
      \<and> matchesLost twice - matchesLost r = 2 * (matchesLost once - matchesLost r)
      \<and> points twice - points r = 2 * (points once - points r)
      \<and> setsWon twice - setsWon r = 2 * (setsWon once - setsWon r)
      \<and> setsLost twice - setsLost r = 2 * (setsLost once - setsLost r)
      \<and> gamesWon twice - gamesWon r = 2 * (gamesWon once - gamesWon r)
      \<and> gamesLost twice - gamesLost r = 2 * (gamesLost once - gamesLost r)
      \<and> twice \<noteq> once"
proof -
  define once where
    "once = updateWithMatchResult now isWinner sw sl gw gl pointsPerWin pointsPerLoss r"
  define twice where
    "twice = updateWithMatchResult now' isWinner sw sl gw gl pointsPerWin pointsPerLoss once"
  have p1: "matchesPlayed once = matchesPlayed r + 1"
    by (simp add: once_def updateWithMatchResult_def Let_def)
  have p2: "matchesPlayed twice = matchesPlayed once + 1"
    by (simp add: twice_def updateWithMatchResult_def Let_def)
  have w: "matchesWon twice - matchesWon r = 2 * (matchesWon once - matchesWon r)"
    by (simp add: twice_def once_def updateWithMatchResult_def Let_def)
  have l: "matchesLost twice - matchesLost r = 2 * (matchesLost once - matchesLost r)"
    by (simp add: twice_def once_def updateWithMatchResult_def Let_def)
  have p: "points twice - points r = 2 * (points once - points r)"
    by (simp add: twice_def once_def updateWithMatchResult_def Let_def)
  have s1: "setsWon twice - setsWon r = 2 * (setsWon once - setsWon r)"
    by (simp add: twice_def once_def updateWithMatchResult_def Let_def)
  have s2: "setsLost twice - setsLost r = 2 * (setsLost once - setsLost r)"
    by (simp add: twice_def once_def updateWithMatchResult_def Let_def)
  have g1: "gamesWon twice - gamesWon r = 2 * (gamesWon once - gamesWon r)"
    by (simp add: twice_def once_def updateWithMatchResult_def Let_def)
  have g2: "gamesLost twice - gamesLost r = 2 * (gamesLost once - gamesLost r)"
    by (simp add: twice_def once_def updateWithMatchResult_def Let_def)
  from p2 have ne: "twice \<noteq> once" by auto
  from p1 p2 w l p s1 s2 g1 g2 ne show ?thesis
    unfolding Let_def once_def[symmetric] twice_def[symmetric] by simp
qed

theorem update_twice_double_counts_witness:
  "matchesPlayed (updateWithMatchResult 8 True 2 1 16 11 3 0
       (updateWithMatchResult 7 True 2 1 16 11 3 0 (new_ranking 7 ''L'' ''A''))) = 2
   \<and> gamesWon (updateWithMatchResult 8 True 2 1 16 11 3 0
       (updateWithMatchResult 7 True 2 1 16 11 3 0 (new_ranking 7 ''L'' ''A''))) = 32
   \<and> updateWithMatchResult 8 True 2 1 16 11 3 0
       (updateWithMatchResult 7 True 2 1 16 11 3 0 (new_ranking 7 ''L'' ''A''))
     \<noteq> updateWithMatchResult 7 True 2 1 16 11 3 0 (new_ranking 7 ''L'' ''A'')"
  using update_twice_double_counts[where r = "new_ranking 7 ''L'' ''A''" and now = 7
          and now' = 8 and isWinner = True and sw = 2 and sl = 1 and gw = 16 and gl = 11
          and pointsPerWin = 3 and pointsPerLoss = 0]
  by (simp add: Let_def updateWithMatchResult_def new_ranking_def)

text \<open>
  C10: the per-entry update keeps \<open>matchesWon + matchesLost = matchesPlayed\<close>, and with
  non-negative points per win and per loss, set counts and game counts it decreases none of
  the cumulative counters.
\<close>

theorem update_preserves_invariants:
  "let r' = updateWithMatchResult now isWinner sw sl gw gl pointsPerWin pointsPerLoss r
   in (matchesWon r + matchesLost r = matchesPlayed r
         \<longrightarrow> matchesWon r' + matchesLost r' = matchesPlayed r')
      \<and> (0 \<le> pointsPerWin \<and> 0 \<le> pointsPerLoss \<and> 0 \<le> sw \<and> 0 \<le> sl \<and> 0 \<le> gw \<and> 0 \<le> gl
           \<longrightarrow> matchesPlayed r \<le> matchesPlayed r' \<and> matchesWon r \<le> matchesWon r'
               \<and> matchesLost r \<le> matchesLost r' \<and> setsWon r \<le> setsWon r'
               \<and> setsLost r \<le> setsLost r' \<and> gamesWon r \<le> gamesWon r'
               \<and> gamesLost r \<le> gamesLost r' \<and> points r \<le> points r')"
  by (simp add: updateWithMatchResult_def Let_def)

theorem update_preserves_invariants_witness:
  "matchesWon (new_ranking 7 ''L'' ''B'') + matchesLost (new_ranking 7 ''L'' ''B'')
     = matchesPlayed (new_ranking 7 ''L'' ''B'')
   \<and> matchesWon (updateWithMatchResult 7 False 1 2 11 16 3 0 (new_ranking 7 ''L'' ''B''))
       + matchesLost (updateWithMatchResult 7 False 1 2 11 16 3 0 (new_ranking 7 ''L'' ''B''))
     = matchesPlayed (updateWithMatchResult 7 False 1 2 11 16 3 0 (new_ranking 7 ''L'' ''B''))
   \<and> points (new_ranking 7 ''L'' ''B'')
       \<le> points (updateWithMatchResult 7 False 1 2 11 16 3 0 (new_ranking 7 ''L'' ''B''))"
  using update_preserves_invariants[where r = "new_ranking 7 ''L'' ''B''" and now = 7
          and isWinner = False and sw = 1 and sl = 2 and gw = 11 and gl = 16
          and pointsPerWin = 3 and pointsPerLoss = 0]
  by (simp add: Let_def new_ranking_def)

text \<open>
  C4: for a submission that passes the checks made before the scores are read (session,
  match, league, match status, teams, permission) and carries both score arrays, the
  handler fails with one of the four invalid-result errors exactly when the arrays differ in
  length, are empty, hold a tied set, or give both sides the same number of set wins; and
  whenever the handler fails, the database (the match and every standings entry) is as it
  was before the request.
\<close>

theorem invalid_result_iff_and_no_partial_write:
  assumes "submission_guards session mid db = Inr (uid, match, lg)"
    and "rq_teamAScore data = Some a" and "rq_teamBScore data = Some b"
  shows "((\<exists>e. snd (POST now nowA nowB session mid data db) = Inl e \<and> invalid_result e)
            \<longleftrightarrow> (length a \<noteq> length b \<or> a = [] \<or> (\<exists>i < length a. a ! i = b ! i)
                  \<or> set_wins a b = set_wins b a))
         \<and> (\<forall>e. snd (POST now nowA nowB session mid data db) = Inl e
               \<longrightarrow> fst (POST now nowA nowB session mid data db) = db)"
proof -
  have "(\<exists>e. snd (POST now nowA nowB session mid data db) = Inl e \<and> invalid_result e)
            \<longleftrightarrow> (length a \<noteq> length b \<or> a = [] \<or> (\<exists>i < length a. a ! i = b ! i)
                  \<or> set_wins a b = set_wins b a)"
    using assms(1)
    by (auto simp: POST_def validate_scores_eq[OF assms(2,3)] invalid_result_def Let_def)
  moreover have "\<forall>e. snd (POST now nowA nowB session mid data db) = Inl e
               \<longrightarrow> fst (POST now nowA nowB session mid data db) = db"
    by (auto simp: POST_def Let_def split: sum.splits prod.splits)
  ultimately show ?thesis by blast
qed

theorem invalid_result_iff_and_no_partial_write_witness:
  "submission_guards (Some ''u1'') ''m1'' example_db = Inr (''u1'', example_match, example_league)
   \<and> POST 10 11 12 (Some ''u1'') ''m1'' tied_request example_db = (example_db, Inl TiedSet)
   \<and> invalid_result TiedSet"
proof -
  have g: "submission_guards (Some ''u1'') ''m1'' example_db
             = Inr (''u1'', example_match, example_league)"
    by (simp add: submission_guards_def example_db_def example_match_def example_league_def)
  have a: "rq_teamAScore tied_request = Some [6, 6]" and b: "rq_teamBScore tied_request = Some [6, 6]"
    by (simp_all add: tied_request_def)
  from invalid_result_iff_and_no_partial_write[OF g a b, of 10 11 12]
  obtain e where e: "snd (POST 10 11 12 (Some ''u1'') ''m1'' tied_request example_db) = Inl e"
      "invalid_result e"
    and same: "fst (POST 10 11 12 (Some ''u1'') ''m1'' tied_request example_db) = example_db"
    by auto
  have "snd (POST 10 11 12 (Some ''u1'') ''m1'' tied_request example_db) = Inl TiedSet"
    by (simp add: POST_def g validate_scores_def a b wins_loop.simps)
  with e same show ?thesis
    using g by (simp add: prod_eq_iff invalid_result_def)
qed



text \<open>
  C2, as stated, fails in its example: for A's sets \<open>[6,4,6]\<close> against B's \<open>[3,6,2]\<close> the
  update adds B's games \<open>3 + 6 + 2 = 11\<close> to A's \<open>gamesLost\<close>, not 13.
\<close>

theorem standings_example_games_counterexample:
  "map_option (\<lambda>r. (setsWon r, setsLost r, gamesWon r, gamesLost r))
     (findOne ''L'' ''A'' (updateRankings 10 11 ''L'' ''A'' ''B'' ''A'' [6, 4, 6] [3, 6, 2] 3 0 []))
     = Some (2, 1, 16, 11)
   \<and> sum_list [3, 6, 2] = (11 :: int) \<and> (11 :: int) \<noteq> 13"
  by code_simp

text \<open>
  C2 (amended): for every result with as many sets on both sides and a strict majority of set
  wins on one side (so for every valid result), and two different participants, the
  standings update leaves an entry for each of them (starting from a zeroed one where none
  was stored) in which \<open>matchesPlayed\<close> is one more; the winner has one more \<open>matchesWon\<close>
  and \<open>pointsPerWin\<close> more points, the loser one more \<open>matchesLost\<close> and \<open>pointsPerLoss\<close>
  more points; \<open>setsWon\<close> grows by the side's own set wins and \<open>setsLost\<close> by the
  opponent's; \<open>gamesWon\<close> grows by the sum of the side's own set scores and \<open>gamesLost\<close> by
  the sum of the opponent's. For A's sets \<open>[6,4,6]\<close> against \<open>[3,6,2]\<close>, A gains
  \<open>setsWon\<close> 2, \<open>setsLost\<close> 1, \<open>gamesWon\<close> 16 and \<open>gamesLost\<close> 11.
\<close>

theorem standings_update_symmetric:
  assumes len: "length teamAScore = length teamBScore"
    and maj: "set_wins teamAScore teamBScore \<noteq> set_wins teamBScore teamAScore"
    and win: "winnerId = (if set_wins teamAScore teamBScore > set_wins teamBScore teamAScore
                          then teamAId else teamBId)"
    and ne: "teamAId \<noteq> teamBId"
    and d: "distinct (map key st)"
  shows "\<exists>newA newB.
           findOne leagueId teamAId
               (updateRankings nowA nowB leagueId teamAId teamBId winnerId teamAScore
                  teamBScore pointsPerWin pointsPerLoss st) = Some newA
         \<and> findOne leagueId teamBId
               (updateRankings nowA nowB leagueId teamAId teamBId winnerId teamAScore
                  teamBScore pointsPerWin pointsPerLoss st) = Some newB
         \<and> side_updated (set_wins teamAScore teamBScore > set_wins teamBScore teamAScore)
               (set_wins teamAScore teamBScore) (set_wins teamBScore teamAScore)
               (sum_list teamAScore) (sum_list teamBScore) pointsPerWin pointsPerLoss
               (entry_or_new nowA leagueId teamAId st) newA
         \<and> side_updated (set_wins teamBScore teamAScore > set_wins teamAScore teamBScore)
               (set_wins teamBScore teamAScore) (set_wins teamAScore teamBScore)
               (sum_list teamBScore) (sum_list teamAScore) pointsPerWin pointsPerLoss
               (entry_or_new nowB leagueId teamBId st) newB"
proof -
  have wA: "(winnerId = teamAId)
              \<longleftrightarrow> set_wins teamAScore teamBScore > set_wins teamBScore teamAScore"
    using win ne by auto
  have wB: "(winnerId = teamBId)
              \<longleftrightarrow> set_wins teamBScore teamAScore > set_wins teamAScore teamBScore"
    using win ne maj by auto
  note cs = count_sets_won_eq[OF len] count_sets_won_eq[OF len[symmetric]] count_games_eq
  from updateRankings_sides[OF d ne, of leagueId nowA nowB winnerId teamAScore teamBScore
      pointsPerWin pointsPerLoss]
  obtain kA kB where
    "findOne leagueId teamAId
       (updateRankings nowA nowB leagueId teamAId teamBId winnerId teamAScore
          teamBScore pointsPerWin pointsPerLoss st)
       = Some ((updateWithMatchResult nowA
                  (set_wins teamAScore teamBScore > set_wins teamBScore teamAScore)
                  (set_wins teamAScore teamBScore) (set_wins teamBScore teamAScore)
                  (sum_list teamAScore) (sum_list teamBScore) pointsPerWin pointsPerLoss
                  (entry_or_new nowA leagueId teamAId st))\<lparr>rank := kA\<rparr>)"
    "findOne leagueId teamBId
       (updateRankings nowA nowB leagueId teamAId teamBId winnerId teamAScore
          teamBScore pointsPerWin pointsPerLoss st)
       = Some ((updateWithMatchResult nowB
                  (set_wins teamBScore teamAScore > set_wins teamAScore teamBScore)
                  (set_wins teamBScore teamAScore) (set_wins teamAScore teamBScore)
                  (sum_list teamBScore) (sum_list teamAScore) pointsPerWin pointsPerLoss
                  (entry_or_new nowB leagueId teamBId st))\<lparr>rank := kB\<rparr>)"
    unfolding cs wA wB by blast
  then show ?thesis
    using side_updated_updateWithMatchResult by blast
qed

theorem standings_update_symmetric_witness:
  "length [6, 4, 6 :: int] = length [3, 6, 2 :: int]
   \<and> set_wins [6, 4, 6] [3, 6, 2] = 2 \<and> set_wins [3, 6, 2] [6, 4, 6] = 1
   \<and> (\<exists>newA newB.
         findOne ''L'' ''A''
           (updateRankings 10 11 ''L'' ''A'' ''B'' ''A'' [6, 4, 6] [3, 6, 2] 3 0 []) = Some newA
       \<and> findOne ''L'' ''B''
           (updateRankings 10 11 ''L'' ''A'' ''B'' ''A'' [6, 4, 6] [3, 6, 2] 3 0 []) = Some newB
       \<and> matchesWon newA = 1 \<and> matchesLost newB = 1 \<and> points newA = 3 \<and> points newB = 0
       \<and> setsWon newA = 2 \<and> setsLost newA = 1 \<and> setsWon newB = 1 \<and> setsLost newB = 2
       \<and> gamesWon newA = 16 \<and> gamesLost newA = 11 \<and> gamesWon newB = 11
       \<and> gamesLost newB = 16)"
proof -
  have len: "length [6, 4, 6 :: int] = length [3, 6, 2 :: int]" by simp
  have sa: "set_wins [6, 4, 6] [3, 6, 2] = 2" and sb: "set_wins [3, 6, 2] [6, 4, 6] = 1"
    by (simp_all add: set_wins_def)
  have maj: "set_wins [6, 4, 6] [3, 6, 2] \<noteq> set_wins [3, 6, 2] [6, 4, 6]"
    by (simp add: sa sb)
  have win: "''A'' = (if set_wins [6, 4, 6] [3, 6, 2] > set_wins [3, 6, 2] [6, 4, 6]
                      then ''A'' else ''B'')"
    by (simp add: sa sb)
  have ne: "''A'' \<noteq> ''B''" by simp
  have d: "distinct (map key [])" by simp
  from standings_update_symmetric[OF len maj win ne d, of "''L''" 10 11 3 0]
  obtain newA newB where
    "findOne ''L'' ''A''
       (updateRankings 10 11 ''L'' ''A'' ''B'' ''A'' [6, 4, 6] [3, 6, 2] 3 0 []) = Some newA"
    "findOne ''L'' ''B''
       (updateRankings 10 11 ''L'' ''A'' ''B'' ''A'' [6, 4, 6] [3, 6, 2] 3 0 []) = Some newB"
    "side_updated True 2 1 16 11 3 0 (entry_or_new 10 ''L'' ''A'' []) newA"
    "side_updated False 1 2 11 16 3 0 (entry_or_new 11 ''L'' ''B'' []) newB"
    by (auto simp: sa sb)
  then show ?thesis
    using len sa sb
    by (auto simp: side_updated_def entry_or_new_def findOne_def new_ranking_def)
qed

end
